theory Spec2Isabelle
  imports Complex_Main
begin

section \<open>Python values used by the program\<close>

text \<open>
  Texts are Python \<open>str\<close> values. They are modelled as \<open>string\<close>, a list of 8-bit
  characters read as the code points 0 to 255; \<open>length\<close> is Python's \<open>len\<close>.
  Python floats (distances, relevance scores) are modelled as \<open>real\<close>.
  Exceptions are values of the type \<open>error\<close>; a function that can raise returns
  \<open>error + 'a\<close>, with \<open>Inl\<close> for the exception.
\<close>

datatype error = KeyError string | IndexError | ValueError | CapabilityError

definition ebind :: "error + 'a \<Rightarrow> ('a \<Rightarrow> error + 'b) \<Rightarrow> error + 'b" where
  "ebind m f = (case m of Inl e \<Rightarrow> Inl e | Inr x \<Rightarrow> f x)"

text \<open>\<open>xs[i]\<close> for a non-negative index: IndexError out of range.\<close>

definition py_nth :: "'a list \<Rightarrow> nat \<Rightarrow> error + 'a" where
  "py_nth xs i = (if i < length xs then Inr (xs ! i) else Inl IndexError)"

text \<open>\<open>[f(i) for i in range(n)]\<close> where \<open>f\<close> may raise: the first exception ends the loop.\<close>

fun emap :: "('a \<Rightarrow> error + 'b) \<Rightarrow> 'a list \<Rightarrow> error + 'b list" where
  "emap f [] = Inr []"
| "emap f (x # xs) =
     (case f x of Inl e \<Rightarrow> Inl e
      | Inr y \<Rightarrow> (case emap f xs of Inl e \<Rightarrow> Inl e | Inr ys \<Rightarrow> Inr (y # ys)))"

text \<open>\<open>xs[i:j]\<close> for \<open>0 \<le> i \<le> j\<close>.\<close>

definition slice :: "'a list \<Rightarrow> nat \<Rightarrow> nat \<Rightarrow> 'a list" where
  "slice xs i j = take (j - i) (drop i xs)"

text \<open>\<open>range(i, n, st)\<close> for a positive step (a zero step is a ValueError in Python;
  the program only uses the constant step 450).\<close>

function range_step :: "nat \<Rightarrow> nat \<Rightarrow> nat \<Rightarrow> nat list" where
  "range_step i n st = (if st = 0 \<or> n \<le> i then [] else i # range_step (i + st) n st)"
  by pat_completeness auto
termination
  by (relation "measure (\<lambda>(i, n, st). n - i)") auto

declare range_step.simps [simp del]

text \<open>\<open>str(n)\<close> for integers: decimal digits, a minus sign for negative numbers.\<close>

definition digit_char :: "nat \<Rightarrow> char" where
  "digit_char d = ''0123456789'' ! d"

function str_nat :: "nat \<Rightarrow> string" where
  "str_nat n = (if n < 10 then [digit_char n] else str_nat (n div 10) @ [digit_char (n mod 10)])"
  by pat_completeness auto
termination
  by (relation "measure id") auto

declare str_nat.simps [simp del]

definition str_int :: "int \<Rightarrow> string" where
  "str_int i = (if i < 0 then CHR ''-'' # str_nat (nat (- i)) else str_nat (nat i))"

text \<open>\<open>sub in s\<close> for strings.\<close>

fun startswith :: "string \<Rightarrow> string \<Rightarrow> bool" where
  "startswith s [] = True"
| "startswith [] (p # ps) = False"
| "startswith (c # cs) (p # ps) = (c = p \<and> startswith cs ps)"

fun py_in :: "string \<Rightarrow> string \<Rightarrow> bool" where
  "py_in sub [] = (sub = [])"
| "py_in sub (c # cs) = (startswith (c # cs) sub \<or> py_in sub cs)"

section \<open>embeddings\_search.py: the retrieval engine\<close>

subsection \<open>The Index Store\<close>

text \<open>
  A metadata dict maps field names to strings. A stored entry is what one row of an
  \<open>upsert\<close> call carries. The embedding type \<open>'v\<close> is left open: the embedder and the
  store's distance function are external capabilities.
\<close>

type_synonym meta_dict = "string \<rightharpoonup> string"

record 'v entry =
  entry_id :: string
  embedding :: 'v
  document :: string
  metadata :: meta_dict

text \<open>
  Modelled from the spec: the Index Store (the \<open>chromadb\<close> collection) is an external
  library, not part of the repository's sources. Section 4.3 of the specification gives
  its contract: \<open>upsert\<close> inserts or overwrites entries keyed by id (a colliding id
  overwrites in place, as in a key-value map); \<open>query\<close> returns the \<open>k\<close> nearest entries
  under an optional equality filter over metadata fields, ranked by distance, all of
  them when fewer than \<open>k\<close> exist, ties in a deterministic order; \<open>delete\<close> removes every
  entry whose metadata matches the filter and is a no-op when nothing matches; \<open>count\<close>
  is the number of entries stored. The store is a list of entries in insertion order.
\<close>

definition upsert_one :: "'v entry \<Rightarrow> 'v entry list \<Rightarrow> 'v entry list" where
  "upsert_one e s =
     (if entry_id e \<in> set (map entry_id s)
      then map (\<lambda>x. if entry_id x = entry_id e then e else x) s
      else s @ [e])"

text \<open>Modelled from the spec: \<open>upsert(ids, vectors, texts, metadatas)\<close> of the Index Store.
  The four argument lists are read row by row, each row inserted or overwritten by id.\<close>

definition upsert_rows ::
  "string list \<Rightarrow> 'v list \<Rightarrow> string list \<Rightarrow> meta_dict list \<Rightarrow> 'v entry list" where
  "upsert_rows ids embeddings documents metadatas =
     map (\<lambda>(i, v, d, m). \<lparr>entry_id = i, embedding = v, document = d, metadata = m\<rparr>)
       (zip ids (zip embeddings (zip documents metadatas)))"

definition store_upsert ::
  "'v entry list \<Rightarrow> string list \<Rightarrow> 'v list \<Rightarrow> string list \<Rightarrow> meta_dict list \<Rightarrow> 'v entry list" where
  "store_upsert s ids embeddings documents metadatas =
     fold upsert_one (upsert_rows ids embeddings documents metadatas) s"

text \<open>Modelled from the spec: a filter of the Index Store is an equality predicate over
  metadata fields, here the dict of the required field values; \<open>None\<close> is the absent
  filter, which every entry passes.\<close>

type_synonym where_filter = "(string \<times> string) list"

definition matches_where :: "where_filter option \<Rightarrow> meta_dict \<Rightarrow> bool" where
  "matches_where w m =
     (case w of None \<Rightarrow> True | Some kvs \<Rightarrow> list_all (\<lambda>(k, v). m k = Some v) kvs)"

text \<open>The store's answer to a query as \<open>search\<close> reads it: under each key one inner list
  per query embedding.\<close>

record query_result =
  ids :: "string list list"
  documents :: "string list list"
  metadatas :: "meta_dict list list"
  distances :: "real list list"

text \<open>Modelled from the spec: \<open>query(query_vector, k, filter)\<close> of the Index Store. The
  entries that pass the filter are ranked by their distance to the query vector (ties
  keep insertion order) and the first \<open>k\<close> are returned, all of them when fewer exist. The
  specification says nothing about \<open>k \<le> 0\<close>; no entry is returned then.\<close>

definition nearest ::
  "('v \<Rightarrow> 'v \<Rightarrow> real) \<Rightarrow> 'v entry list \<Rightarrow> 'v \<Rightarrow> int \<Rightarrow> where_filter option \<Rightarrow> 'v entry list" where
  "nearest dfun s q k w =
     take (nat k) (sort_key (\<lambda>e. dfun q (embedding e)) (filter (\<lambda>e. matches_where w (metadata e)) s))"

definition store_query ::
  "('v \<Rightarrow> 'v \<Rightarrow> real) \<Rightarrow> 'v entry list \<Rightarrow> 'v list \<Rightarrow> int \<Rightarrow> where_filter option \<Rightarrow> query_result" where
  "store_query dfun s query_embeddings n_results w =
     \<lparr>ids = map (\<lambda>q. map entry_id (nearest dfun s q n_results w)) query_embeddings,
      documents = map (\<lambda>q. map document (nearest dfun s q n_results w)) query_embeddings,
      metadatas = map (\<lambda>q. map metadata (nearest dfun s q n_results w)) query_embeddings,
      distances = map (\<lambda>q. map (\<lambda>e. dfun q (embedding e)) (nearest dfun s q n_results w))
                    query_embeddings\<rparr>"


definition store_count :: "'v entry list \<Rightarrow> nat" where
  "store_count s = length s"

subsection \<open>SemanticSearchEngine\<close>

text \<open>
  The engine object: its collection (the state), its embedding model (\<open>None\<close> when the
  embedder raises on a text) and the distance function of the collection.
\<close>

record 'v engine =
  collection :: "'v entry list"
  model :: "string \<Rightarrow> 'v option"
  metric :: "'v \<Rightarrow> 'v \<Rightarrow> real"

text \<open>\<open>self.model.encode(texts).tolist()\<close>: one vector per text, in one batch call.\<close>

definition encode :: "(string \<Rightarrow> 'v option) \<Rightarrow> string list \<Rightarrow> error + 'v list" where
  "encode m texts =
     (if list_all (\<lambda>t. m t \<noteq> None) texts then Inr (map (\<lambda>t. the (m t)) texts)
      else Inl CapabilityError)"

definition chunk_size :: nat where
  "chunk_size = 500"

text \<open>\<open>[text[i:i+chunk_size] for i in range(0, len(text), chunk_size - 50)]\<close>\<close>

definition chunk_text :: "string \<Rightarrow> string list" where
  "chunk_text text =
     map (\<lambda>i. slice text i (i + chunk_size)) (range_step 0 (length text) (chunk_size - 50))"

text \<open>
  The id of chunk \<open>i\<close>: \<open>f"{title}_{i}_{str(uuid.uuid4())[:8]}"\<close>. The random part is an
  input of the model: \<open>suffix i\<close> is the uuid prefix drawn for chunk \<open>i\<close> in this call.
\<close>

definition chunk_id :: "string \<Rightarrow> nat \<Rightarrow> string \<Rightarrow> string" where
  "chunk_id title i suf = title @ ''_'' @ str_nat i @ ''_'' @ suf"

definition index_document ::
  "'v engine \<Rightarrow> (nat \<Rightarrow> string) \<Rightarrow> string \<Rightarrow> meta_dict \<Rightarrow> error + 'v engine" where
  "index_document self suffix text md =
     (let chunks = chunk_text text in
      if chunks = [] then Inr self
      else ebind (encode (model self) chunks) (\<lambda>embeddings.
           ebind (case md ''title'' of None \<Rightarrow> Inl (KeyError ''title'') | Some title \<Rightarrow>
                    Inr (map (\<lambda>i. chunk_id title i (suffix i)) [0..<length chunks])) (\<lambda>ids.
           let metadatas = replicate (length chunks) md in
           Inr (self\<lparr>collection :=
                  store_upsert (collection self) ids embeddings chunks metadatas\<rparr>))))"

text \<open>The entries one successful \<open>index_document\<close> call sends to \<open>upsert\<close>, for a
  metadata dict with the title \<open>title\<close>.\<close>

definition indexed_entries ::
  "'v engine \<Rightarrow> (nat \<Rightarrow> string) \<Rightarrow> string \<Rightarrow> meta_dict \<Rightarrow> string \<Rightarrow> 'v entry list" where
  "indexed_entries self suffix text md title =
     map (\<lambda>i. \<lparr>entry_id = chunk_id title i (suffix i),
               embedding = the (model self (chunk_text text ! i)),
               document = chunk_text text ! i,
               metadata = md\<rparr>)
       [0..<length (chunk_text text)]"

text \<open>
  What an \<open>upsert\<close> of the batch \<open>es\<close> leaves in the place of a stored entry \<open>x\<close>: the
  first entry of the batch under the id of \<open>x\<close> when there is one, otherwise \<open>x\<close> itself.
  It states what \<open>index_document\<close> does to a store that already holds some of the ids
  of the call.
\<close>

definition overwritten :: "'v entry list \<Rightarrow> 'v entry \<Rightarrow> 'v entry" where
  "overwritten es x = (case find (\<lambda>e. entry_id e = entry_id x) es of None \<Rightarrow> x | Some e \<Rightarrow> e)"

text \<open>One row of the public result shape.\<close>

record clean_result =
  res_id :: string
  res_document :: string
  res_metadata :: meta_dict
  relevance_score :: real

definition search ::
  "'v engine \<Rightarrow> string \<Rightarrow> int \<Rightarrow> where_filter option \<Rightarrow> error + clean_result list" where
  "search self query n_results filters =
     ebind (encode (model self) [query]) (\<lambda>query_embedding.
       let results = store_query (metric self) (collection self) query_embedding n_results filters in
       if documents results = [] then Inr []
       else ebind (py_nth (documents results) 0) (\<lambda>docs0.
            emap (\<lambda>i.
              ebind (py_nth (ids results) 0) (\<lambda>ids0. ebind (py_nth ids0 i) (\<lambda>rid.
              ebind (py_nth (documents results) 0) (\<lambda>ds0. ebind (py_nth ds0 i) (\<lambda>rdoc.
              ebind (py_nth (metadatas results) 0) (\<lambda>ms0. ebind (py_nth ms0 i) (\<lambda>rmeta.
              ebind (py_nth (distances results) 0) (\<lambda>dists0. ebind (py_nth dists0 i) (\<lambda>rdist.
                Inr \<lparr>res_id = rid, res_document = rdoc, res_metadata = rmeta,
                     relevance_score = 1 - rdist\<rparr>)))))))))
              [0..<length docs0]))"

text \<open>The row \<open>search\<close> builds from a stored entry \<open>e\<close> and the query embedding \<open>q\<close>.\<close>

definition result_row :: "('v \<Rightarrow> 'v \<Rightarrow> real) \<Rightarrow> 'v \<Rightarrow> 'v entry \<Rightarrow> clean_result" where
  "result_row dfun q e =
     \<lparr>res_id = entry_id e, res_document = document e, res_metadata = metadata e,
      relevance_score = 1 - dfun q (embedding e)\<rparr>"

definition get_document_count :: "'v engine \<Rightarrow> nat" where
  "get_document_count self = store_count (collection self)"

definition target_url :: "string \<Rightarrow> string" where
  "target_url filename = ''http://localhost:8000/files/'' @ filename"


section \<open>app.py and backend\_main.py: helpers\<close>

subsection \<open>Characters and string methods\<close>

text \<open>
  On the code points 0 to 255 the decimal digits (\<open>\d\<close>, \<open>int\<close>) are \<open>0\<close> to \<open>9\<close>, the
  whitespace characters (\<open>\s\<close>, \<open>str.strip\<close>) are the twelve listed below, and
  \<open>str.lower\<close> moves \<open>A\<close>-\<open>Z\<close> and the Latin-1 capitals to their small letters.
\<close>

definition is_digit :: "char \<Rightarrow> bool" where
  "is_digit c = (c \<in> set ''0123456789'')"

definition is_space :: "char \<Rightarrow> bool" where
  "is_space c = ((of_char c :: nat) \<in> {9, 10, 11, 12, 13, 28, 29, 30, 31, 32, 133, 160})"

definition is_ascii_lower :: "char \<Rightarrow> bool" where
  "is_ascii_lower c = (c \<in> set ''abcdefghijklmnopqrstuvwxyz'')"

definition lower_char :: "char \<Rightarrow> char" where
  "lower_char c =
     (let n = (of_char c :: nat) in
      if (65 \<le> n \<and> n \<le> 90) \<or> (192 \<le> n \<and> n \<le> 222 \<and> n \<noteq> 215) then char_of (n + 32) else c)"

definition lower :: "string \<Rightarrow> string" where
  "lower s = map lower_char s"

definition strip :: "string \<Rightarrow> string" where
  "strip s = rev (dropWhile is_space (rev (dropWhile is_space s)))"

text \<open>\<open>s.replace(c, '')\<close> for a one-character \<open>c\<close>: every occurrence is removed.\<close>

definition remove_char :: "char \<Rightarrow> string \<Rightarrow> string" where
  "remove_char c s = filter (\<lambda>x. x \<noteq> c) s"

text \<open>
  \<open>int(s)\<close> on a string of decimal digits (the program applies it to the matches of
  the year scan only); anything else is a ValueError here.
\<close>

definition digit_val :: "char \<Rightarrow> nat" where
  "digit_val c = (of_char c :: nat) - 48"

definition digits_value :: "string \<Rightarrow> nat" where
  "digits_value s = foldl (\<lambda>a c. 10 * a + digit_val c) 0 s"

definition py_int :: "string \<Rightarrow> error + int" where
  "py_int s =
     (if s \<noteq> [] \<and> list_all is_digit s then Inr (int (digits_value s)) else Inl ValueError)"

text \<open>\<open>max(xs)\<close> of a non-empty list.\<close>

definition py_max :: "int list \<Rightarrow> int" where
  "py_max xs = foldl max (hd xs) (tl xs)"

subsection \<open>Regular expressions\<close>

text \<open>
  The fragment of Python's \<open>re\<close> the program's patterns use. \<open>rx_match ic r s\<close> lists,
  in the order in which the backtracking matcher tries them, what remains of \<open>s\<close> after
  each way of matching \<open>r\<close> at the start of \<open>s\<close>; \<open>ic\<close> is the flag \<open>re.IGNORECASE\<close>.
  \<open>Star\<close> and \<open>Opt\<close> are greedy, \<open>Alt\<close> prefers its left branch.
\<close>

datatype cclass = Digit | Space | Lower | Lit char

datatype rx = Eps | Atom cclass | Seq rx rx | Alt rx rx | Opt rx | Star cclass

fun cmatch :: "bool \<Rightarrow> cclass \<Rightarrow> char \<Rightarrow> bool" where
  "cmatch ic Digit x = is_digit x"
| "cmatch ic Space x = is_space x"
| "cmatch ic Lower x = (if ic then is_ascii_lower (lower_char x) else is_ascii_lower x)"
| "cmatch ic (Lit c) x = (if ic then lower_char x = lower_char c else x = c)"

fun rx_match :: "bool \<Rightarrow> rx \<Rightarrow> string \<Rightarrow> string list" where
  "rx_match ic Eps s = [s]"
| "rx_match ic (Atom c) [] = []"
| "rx_match ic (Atom c) (x # xs) = (if cmatch ic c x then [xs] else [])"
| "rx_match ic (Seq a b) s = concat (map (rx_match ic b) (rx_match ic a s))"
| "rx_match ic (Alt a b) s = rx_match ic a s @ rx_match ic b s"
| "rx_match ic (Opt a) s = rx_match ic a s @ [s]"
| "rx_match ic (Star c) [] = [[]]"
| "rx_match ic (Star c) (x # xs) =
     (if cmatch ic c x then rx_match ic (Star c) xs @ [x # xs] else [x # xs])"

text \<open>\<open>re.search(r, s).group(0)\<close>: the first match at the leftmost position that has one.\<close>

fun re_search :: "bool \<Rightarrow> rx \<Rightarrow> string \<Rightarrow> string option" where
  "re_search ic r [] = (case rx_match ic r [] of [] \<Rightarrow> None | rest # _ \<Rightarrow> Some [])"
| "re_search ic r (x # xs) =
     (case rx_match ic r (x # xs) of
        [] \<Rightarrow> re_search ic r xs
      | rest # _ \<Rightarrow> Some (take (length (x # xs) - length rest) (x # xs)))"

text \<open>
  \<open>re.findall(r, s)\<close> for a pattern that is one group: the matches from left to right,
  each search starting where the previous match ended (one character further after an
  empty match).
\<close>

function re_findall :: "bool \<Rightarrow> rx \<Rightarrow> string \<Rightarrow> string list" where
  "re_findall ic r s =
     (case rx_match ic r s of
        [] \<Rightarrow> (case s of [] \<Rightarrow> [] | x # xs \<Rightarrow> re_findall ic r xs)
      | rest # _ \<Rightarrow>
          if length rest < length s
          then take (length s - length rest) s # re_findall ic r rest
          else [] # (case s of [] \<Rightarrow> [] | x # xs \<Rightarrow> re_findall ic r xs))"
  by pat_completeness auto
termination
  by (relation "measure (\<lambda>(ic, r, s). length s)") auto

declare re_findall.simps [simp del]

text \<open>Pattern syntax: a sequence, a choice, a literal word, \<open>c{n}\<close> and \<open>c+\<close>.\<close>

definition seq :: "rx list \<Rightarrow> rx" where
  "seq rs = foldr Seq rs Eps"

fun alts :: "rx \<Rightarrow> rx list \<Rightarrow> rx" where
  "alts r [] = r"
| "alts r (q # qs) = Alt r (alts q qs)"

definition word :: "string \<Rightarrow> rx" where
  "word w = seq (map (\<lambda>c. Atom (Lit c)) w)"

definition times :: "nat \<Rightarrow> cclass \<Rightarrow> rx" where
  "times n c = seq (replicate n (Atom c))"

definition plus :: "cclass \<Rightarrow> rx" where
  "plus c = Seq (Atom c) (Star c)"

subsection \<open>extract\_date\_from\_text\<close>

text \<open>\<open>\d{2}/\d{2}/\d{4}\<close>\<close>

definition pat_dmy :: rx where
  "pat_dmy = seq [times 2 Digit, Atom (Lit (CHR ''/'')), times 2 Digit, Atom (Lit (CHR ''/'')),
                  times 4 Digit]"

text \<open>What the first pattern reads at the start of a string: two digits, a slash, two
  digits, a slash, four digits.\<close>

fun dmy_at :: "string \<Rightarrow> bool" where
  "dmy_at (d1 # d2 # s1 # m1 # m2 # s2 # y1 # y2 # y3 # y4 # rest) =
     (is_digit d1 \<and> is_digit d2 \<and> s1 = CHR ''/'' \<and> is_digit m1 \<and> is_digit m2 \<and> s2 = CHR ''/''
      \<and> is_digit y1 \<and> is_digit y2 \<and> is_digit y3 \<and> is_digit y4)"
| "dmy_at s = False"


text \<open>\<open>\d{4}-\d{2}-\d{2}\<close>\<close>

definition pat_ymd :: rx where
  "pat_ymd = seq [times 4 Digit, Atom (Lit (CHR ''-'')), times 2 Digit, Atom (Lit (CHR ''-'')),
                  times 2 Digit]"

text \<open>\<open>(?:Jan|Feb|Mar|Apr|May|Jun|Jul|Aug|Sep|Oct|Nov|Dec)\<close>\<close>

definition month_name :: rx where
  "month_name = alts (word ''Jan'') (map word [''Feb'', ''Mar'', ''Apr'', ''May'', ''Jun'',
                  ''Jul'', ''Aug'', ''Sep'', ''Oct'', ''Nov'', ''Dec''])"

text \<open>\<open>(?:Jan|...|Dec)[a-z]*\s+\d{1,2},?\s+\d{4}\<close>\<close>

definition pat_month_day_year :: rx where
  "pat_month_day_year =
     seq [month_name, Star Lower, plus Space, Atom Digit, Opt (Atom Digit),
          Opt (Atom (Lit (CHR '',''))), plus Space, times 4 Digit]"

text \<open>\<open>\d{1,2}(?:st|nd|rd|th)?\s+(?:Jan|...|Dec)[a-z]*\s+\d{4}\<close> (backend\_main.py only)\<close>

definition pat_day_month_year :: rx where
  "pat_day_month_year =
     seq [Atom Digit, Opt (Atom Digit),
          Opt (alts (word ''st'') [word ''nd'', word ''rd'', word ''th'']),
          plus Space, month_name, Star Lower, plus Space, times 4 Digit]"

text \<open>The loop over the patterns: the first pattern with a match returns it.\<close>

fun first_match :: "rx list \<Rightarrow> string \<Rightarrow> string option" where
  "first_match [] text = None"
| "first_match (pattern # patterns) text =
     (case re_search True pattern text of
        Some match \<Rightarrow> Some match
      | None \<Rightarrow> first_match patterns text)"

text \<open>The pattern lists of app.py and of backend\_main.py.\<close>

definition patterns :: "rx list" where
  "patterns = [pat_dmy, pat_ymd, pat_month_day_year]"

definition backend_patterns :: "rx list" where
  "backend_patterns = [pat_dmy, pat_ymd, pat_day_month_year, pat_month_day_year]"

text \<open>\<open>today\<close> is \<open>datetime.now().strftime("%Y-%m-%d")\<close>, an input of the model.\<close>

definition extract_date_from_text :: "string \<Rightarrow> string \<Rightarrow> string" where
  "extract_date_from_text today text =
     (case first_match patterns text of Some match \<Rightarrow> match | None \<Rightarrow> today)"

definition backend_extract_date_from_text :: "string \<Rightarrow> string \<Rightarrow> string" where
  "backend_extract_date_from_text today text =
     (case first_match backend_patterns text of Some match \<Rightarrow> match | None \<Rightarrow> today)"

subsection \<open>calculate\_smart\_age\<close>

text \<open>\<open>(199\d|200\d|201\d)\<close>\<close>

definition year_rx :: rx where
  "year_rx = alts (Seq (word ''199'') (Atom Digit))
               [Seq (word ''200'') (Atom Digit), Seq (word ''201'') (Atom Digit)]"

text \<open>
  The loop over the matches; an exception anywhere (the bare \<open>except\<close>) gives \<open>None\<close>.
  \<open>current_year\<close> is \<open>datetime.now().year\<close>, an input of the model.
\<close>

fun possible_ages :: "int \<Rightarrow> string list \<Rightarrow> error + int list" where
  "possible_ages current_year [] = Inr []"
| "possible_ages current_year (year_str # rest) =
     ebind (py_int year_str) (\<lambda>y.
     ebind (possible_ages current_year rest) (\<lambda>ages.
       Inr (if 1980 < y \<and> y < current_year - 15 then (current_year - y) # ages else ages)))"

definition calculate_smart_age :: "int \<Rightarrow> string \<Rightarrow> string option" where
  "calculate_smart_age current_year text =
     (let year_matches = re_findall False year_rx text in
      case possible_ages current_year year_matches of
        Inl e \<Rightarrow> None
      | Inr ages \<Rightarrow> if ages \<noteq> [] then Some (str_int (py_max ages)) else None)"

text \<open>What one alternative of the year pattern matches: \<open>199\<close>, \<open>200\<close> or \<open>201\<close> and a
  digit.\<close>

fun is_year_token :: "string \<Rightarrow> bool" where
  "is_year_token [a, b, c, d] =
     (([a, b, c] = ''199'' \<or> [a, b, c] = ''200'' \<or> [a, b, c] = ''201'') \<and> is_digit d)"
| "is_year_token w = False"






text \<open>The years the scan finds in a text that pass the test of the loop.\<close>

definition qualifying_years :: "int \<Rightarrow> string \<Rightarrow> int list" where
  "qualifying_years current_year text =
     filter (\<lambda>y. 1980 < y \<and> y < current_year - 15)
       (map (\<lambda>w. int (digits_value w)) (re_findall False year_rx text))"


subsection \<open>get\_ai\_extraction\<close>

text \<open>The prompt, an f-string over the query, the first 2000 characters of the text and
  the current year.\<close>

definition nl :: string where
  "nl = [CHR 0x0A]"

definition dq :: string where
  "dq = [CHR 0x22]"

definition sq :: string where
  "sq = [CHR 0x27]"

definition build_prompt :: "string \<Rightarrow> string \<Rightarrow> int \<Rightarrow> string" where
  "build_prompt query text current_year =
     nl @ ''        Extract the exact answer.'' @ nl
     @ ''        Query: '' @ dq @ query @ dq @ nl
     @ ''        Context: '' @ dq @ slice text 0 2000 @ dq @ nl
     @ ''        Current Year: '' @ str_int current_year @ nl
     @ ''        '' @ nl
     @ ''        Rules:'' @ nl
     @ ''        - If query is '' @ sq @ ''Age'' @ sq
     @ '' and you see a birth year or probable birth year (e.g. in email), calculate age.'' @ nl
     @ ''        - Return ONLY the result (e.g. '' @ dq @ ''21'' @ dq @ ''). No text.'' @ nl
     @ ''        - If not found, return '' @ dq @ ''None'' @ dq @ ''.'' @ nl
     @ ''        ''"

text \<open>\<open>response.text.strip().replace('"', '').replace("'", "").replace(".", "")\<close>\<close>

definition clean_answer :: "string \<Rightarrow> string" where
  "clean_answer raw =
     remove_char (CHR ''.'') (remove_char (CHR 0x27) (remove_char (CHR 0x22) (strip raw)))"

text \<open>
  The post-processing as the specification words it (section 4.5, step 3: "strip
  surrounding quotes/periods/whitespace"): quotes, periods and whitespace are taken off
  both ends of the response. It is compared with \<open>clean_answer\<close> below.
\<close>

definition spec_strip_surrounding :: "string \<Rightarrow> string" where
  "spec_strip_surrounding raw =
     (let junk = (\<lambda>c. is_space c \<or> c = CHR 0x22 \<or> c = CHR 0x27 \<or> c = CHR ''.'')
      in rev (dropWhile junk (rev (dropWhile junk raw))))"

text \<open>
  The external LLM capability is the function \<open>llm\<close>: the text of the response to a
  prompt, \<open>None\<close> when the call (or reading the response) raises. The second component
  of the result is the list of prompts sent to the capability during the call.
\<close>

definition llm_fallback ::
  "(string \<Rightarrow> string option) \<Rightarrow> int \<Rightarrow> string \<Rightarrow> string \<Rightarrow> string option \<times> string list" where
  "llm_fallback llm current_year text query =
     (let prompt = build_prompt query text current_year in
      case llm prompt of
        None \<Rightarrow> (None, [prompt])
      | Some raw \<Rightarrow>
          let answer = clean_answer raw in
          if py_in ''None'' answer \<or> length answer > 50 then (None, [prompt])
          else (Some answer, [prompt]))"

definition get_ai_extraction ::
  "(string \<Rightarrow> string option) \<Rightarrow> int \<Rightarrow> string \<Rightarrow> string \<Rightarrow> string option \<times> string list" where
  "get_ai_extraction llm current_year text query =
     (if py_in ''age'' (lower query)
      then (case calculate_smart_age current_year text of
              Some math_age \<Rightarrow>
                if math_age \<noteq> [] then (Some math_age, [])
                else llm_fallback llm current_year text query
            | None \<Rightarrow> llm_fallback llm current_year text query)
      else llm_fallback llm current_year text query)"

section \<open>app.py and backend\_main.py: the document lifecycle and the search endpoint\<close>

text \<open>
  A \<open>Path\<close> by the three attributes the program reads: \<open>str(file_path)\<close>,
  \<open>file_path.name\<close> and \<open>file_path.stem\<close>.
\<close>

record path =
  path_str :: string
  name :: string
  stem :: string

definition build_metadata :: "path \<Rightarrow> string \<Rightarrow> string \<Rightarrow> meta_dict" where
  "build_metadata file_path doc_date category =
     [''title'' \<mapsto> stem file_path,
      ''source_url'' \<mapsto> ''http://localhost:8000/files/'' @ name file_path,
      ''date'' \<mapsto> doc_date,
      ''category'' \<mapsto> category]"

text \<open>The category rules of app.py and of backend\_main.py.\<close>

definition categorize :: "string \<Rightarrow> string" where
  "categorize text_lower =
     (if py_in ''resume'' text_lower \<or> py_in ''cv'' text_lower then ''Resume''
      else if py_in ''exam'' text_lower then ''Exams''
      else if py_in ''fee'' text_lower then ''Fees''
      else ''General'')"

definition backend_categorize :: "string \<Rightarrow> string" where
  "backend_categorize text_lower =
     (if py_in ''exam'' text_lower \<or> py_in ''schedule'' text_lower then ''Exams''
      else if py_in ''fee'' text_lower \<or> py_in ''payment'' text_lower then ''Fees''
      else if py_in ''scholarship'' text_lower \<or> py_in ''st/sc'' text_lower
              \<or> py_in ''obc'' text_lower then ''Scholarships''
      else if py_in ''lab'' text_lower \<or> py_in ''syllabus'' text_lower then ''Academics''
      else ''General'')"

text \<open>
  \<open>process_file\<close>. The OCR collaborator is the function \<open>ocr\<close>: the dict
  \<open>process_document\<close> returns for a path, or the exception it raises. The result is the
  returned boolean and the engine after the call. An exception inside the \<open>try\<close> is
  caught and gives \<open>False\<close>; logging is not modelled.
\<close>

definition process_file ::
  "(string \<Rightarrow> error + meta_dict) \<Rightarrow> string \<Rightarrow> 'v engine \<Rightarrow> (nat \<Rightarrow> string) \<Rightarrow> path
     \<Rightarrow> bool \<times> 'v engine" where
  "process_file ocr today search_engine suffix file_path =
     (case ocr (path_str file_path) of
        Inl e \<Rightarrow> (False, search_engine)
      | Inr processed_data \<Rightarrow>
          (case processed_data ''text'' of
             None \<Rightarrow> (False, search_engine)
           | Some text \<Rightarrow>
               if text = [] then (False, search_engine)
               else
                 let doc_date = extract_date_from_text today text;
                     category = categorize (lower text);
                     metadata = build_metadata file_path doc_date category
                 in (case index_document search_engine suffix text metadata of
                       Inl e \<Rightarrow> (False, search_engine)
                     | Inr search_engine' \<Rightarrow> (True, search_engine'))))"

definition backend_process_file ::
  "(string \<Rightarrow> error + meta_dict) \<Rightarrow> string \<Rightarrow> 'v engine \<Rightarrow> (nat \<Rightarrow> string) \<Rightarrow> path
     \<Rightarrow> bool \<times> 'v engine" where
  "backend_process_file ocr today search_engine suffix file_path =
     (case ocr (path_str file_path) of
        Inl e \<Rightarrow> (False, search_engine)
      | Inr processed_data \<Rightarrow>
          (case processed_data ''text'' of
             None \<Rightarrow> (False, search_engine)
           | Some text \<Rightarrow>
               if text = [] then (False, search_engine)
               else
                 let doc_date = backend_extract_date_from_text today text;
                     category = backend_categorize (lower text);
                     metadata = build_metadata file_path doc_date category
                 in (case index_document search_engine suffix text metadata of
                       Inl e \<Rightarrow> (False, search_engine)
                     | Inr search_engine' \<Rightarrow> (True, search_engine'))))"

text \<open>The text the OCR collaborator yields for a path: empty when it raises or the dict
  has no text.\<close>

definition ocr_text :: "(string \<Rightarrow> error + meta_dict) \<Rightarrow> path \<Rightarrow> string" where
  "ocr_text ocr file_path =
     (case ocr (path_str file_path) of
        Inl e \<Rightarrow> []
      | Inr processed_data \<Rightarrow> (case processed_data ''text'' of None \<Rightarrow> [] | Some text \<Rightarrow> text))"

text \<open>The request and response models of the search endpoint.\<close>

record SearchQuery =
  sq_query :: string
  sq_filters :: "where_filter option"
  sq_limit :: int

record SearchResult =
  sr_id :: string
  sr_title :: string
  sr_content :: string
  sr_source_url :: string
  sr_date :: string
  sr_relevance_score :: real
  sr_category :: string
  sr_extracted_answer :: "string option"

record BackendSearchResult =
  bsr_id :: string
  bsr_title :: string
  bsr_content :: string
  bsr_source_url :: string
  bsr_date :: string
  bsr_relevance_score :: real
  bsr_category :: string

text \<open>\<open>meta.get(key, default)\<close>\<close>

definition meta_get :: "meta_dict \<Rightarrow> string \<Rightarrow> string \<Rightarrow> string" where
  "meta_get meta key dflt = (case meta key of None \<Rightarrow> dflt | Some v \<Rightarrow> v)"

text \<open>
  \<open>search_documents\<close> of app.py. The first three results are sent to
  \<open>get_ai_extraction\<close> by a thread pool and the answers are read back by position, so
  the pool is modelled as a map over the positions.
\<close>

definition search_documents ::
  "(string \<Rightarrow> string option) \<Rightarrow> int \<Rightarrow> 'v engine \<Rightarrow> SearchQuery \<Rightarrow> error + SearchResult list" where
  "search_documents llm current_year search_engine q =
     ebind (search search_engine (sq_query q) (sq_limit q) None) (\<lambda>results.
       Inr (map (\<lambda>(i, r).
              let meta = res_metadata r;
                  extracted = (if i < 3
                               then fst (get_ai_extraction llm current_year (res_document r) (sq_query q))
                               else None)
              in \<lparr>sr_id = res_id r,
                  sr_title = meta_get meta ''title'' ''Untitled'',
                  sr_content = res_document r,
                  sr_source_url = meta_get meta ''source_url'' ''#'',
                  sr_date = meta_get meta ''date'' ''N/A'',
                  sr_relevance_score = relevance_score r,
                  sr_category = meta_get meta ''category'' ''General'',
                  sr_extracted_answer = extracted\<rparr>)
            (enumerate 0 results)))"

text \<open>\<open>search_documents\<close> of backend\_main.py.\<close>

definition backend_search_documents ::
  "'v engine \<Rightarrow> SearchQuery \<Rightarrow> error + BackendSearchResult list" where
  "backend_search_documents search_engine q =
     ebind (search search_engine (sq_query q) (sq_limit q) None) (\<lambda>results.
       Inr (map (\<lambda>r.
              let meta = res_metadata r
              in \<lparr>bsr_id = res_id r,
                  bsr_title = meta_get meta ''title'' ''Untitled'',
                  bsr_content = res_document r,
                  bsr_source_url = meta_get meta ''source_url'' ''#'',
                  bsr_date = meta_get meta ''date'' ''N/A'',
                  bsr_relevance_score = relevance_score r,
                  bsr_category = meta_get meta ''category'' ''General''\<rparr>)
            results))"

section \<open>Example data\<close>

text \<open>A small engine used to run the theorems on concrete inputs: a text is embedded as
  its length, and the distance of two embeddings is a tenth of their difference.\<close>

definition ex_model :: "string \<Rightarrow> real option" where
  "ex_model t = Some (real (length t))"

definition ex_metric :: "real \<Rightarrow> real \<Rightarrow> real" where
  "ex_metric a b = \<bar>a - b\<bar> / 10"

definition ex_entry :: "string \<Rightarrow> string \<Rightarrow> string \<Rightarrow> real entry" where
  "ex_entry i d url =
     \<lparr>entry_id = i, embedding = real (length d), document = d,
      metadata = [''source_url'' \<mapsto> url]\<rparr>"

definition ex_engine :: "real entry list \<Rightarrow> real engine" where
  "ex_engine s = \<lparr>collection = s, model = ex_model, metric = ex_metric\<rparr>"

definition ex_store :: "real entry list" where
  "ex_store = [ex_entry ''a_0_11111111'' ''ab'' ''u1'', ex_entry ''b_0_22222222'' ''abcdefghi'' ''u2'',
               ex_entry ''c_0_33333333'' ''abcde'' ''u1'']"

definition ex_md :: meta_dict where
  "ex_md = [''title'' \<mapsto> ''notice'', ''source_url'' \<mapsto> ''http://localhost:8000/files/notice.pdf'']"

definition ex_first_pass :: "real entry list" where
  "ex_first_pass = [\<lparr>entry_id = ''notice_0_aaaaaaaa'', embedding = 4, document = ''exam'', metadata = ex_md\<rparr>]"

definition ex_ocr :: "string \<Rightarrow> error + meta_dict" where
  "ex_ocr p =
     (if p = ''documents/a.pdf'' then Inr [''text'' \<mapsto> ''Exam on 10/10/2025'']
      else if p = ''documents/b.png'' then Inr [''text'' \<mapsto> ''Fee notice'']
      else Inr [''text'' \<mapsto> ''''])"

definition ex_path_a :: path where
  "ex_path_a = \<lparr>path_str = ''documents/a.pdf'', name = ''a.pdf'', stem = ''a''\<rparr>"

definition ex_path_b :: path where
  "ex_path_b = \<lparr>path_str = ''documents/b.png'', name = ''b.png'', stem = ''b''\<rparr>"

definition ex_entry_a :: "real entry" where
  "ex_entry_a =
     \<lparr>entry_id = ''a_0_aaaaaaaa'', embedding = 18, document = ''Exam on 10/10/2025'',
      metadata = build_metadata ex_path_a ''10/10/2025'' ''Exams''\<rparr>"


definition ex_entry_b :: "real entry" where
  "ex_entry_b =
     \<lparr>entry_id = ''b_0_bbbbbbbb'', embedding = 10, document = ''Fee notice'',
      metadata = build_metadata ex_path_b ''2026-11-03'' ''Fees''\<rparr>"

definition ex_path_c :: path where
  "ex_path_c = \<lparr>path_str = ''documents/c.pdf'', name = ''c.pdf'', stem = ''c''\<rparr>"

definition ex_query :: "where_filter option \<Rightarrow> SearchQuery" where
  "ex_query f = \<lparr>sq_query = ''exam'', sq_filters = f, sq_limit = 5\<rparr>"

section \<open>Basic facts\<close>

lemma ebind_Inr [simp]: "ebind (Inr x) f = f x"
  by (simp add: ebind_def)

lemma ebind_Inl [simp]: "ebind (Inl e) f = Inl e"
  by (simp add: ebind_def)

lemma py_nth_0 [simp]: "py_nth (x # xs) 0 = Inr x"
  by (simp add: py_nth_def)

lemma py_nth_map: "i < length xs \<Longrightarrow> py_nth (map f xs) i = Inr (f (xs ! i))"
  by (simp add: py_nth_def)

lemma emap_ok: "(\<And>x. x \<in> set xs \<Longrightarrow> f x = Inr (g x)) \<Longrightarrow> emap f xs = Inr (map g xs)"
  by (induction xs) auto

lemma encode_single: "m q = Some v \<Longrightarrow> encode m [q] = Inr [v]"
  by (simp add: encode_def)

lemma encode_single_fail: "m q = None \<Longrightarrow> encode m [q] = Inl CapabilityError"
  by (simp add: encode_def)

section \<open>Chunking\<close>

lemma range_step_nil [simp]: "n \<le> i \<Longrightarrow> range_step i n st = []"
  by (simp add: range_step.simps)

lemma range_step_cons: "0 < st \<Longrightarrow> i < n \<Longrightarrow> range_step i n st = i # range_step (i + st) n st"
  by (subst range_step.simps) simp

lemma chunk_text_nil [simp]: "chunk_text [] = []"
  by (simp add: chunk_text_def)


lemma chunk_length_le: "c \<in> set (chunk_text T) \<Longrightarrow> length c \<le> 500"
  by (auto simp: chunk_text_def slice_def chunk_size_def)

lemma concat_take_chunks:
  "n = length T \<Longrightarrow>
   concat (map (\<lambda>i. take 450 (slice T i (i + 500))) (range_step i n 450)) = drop i T"
proof (induction i n "450 :: nat" arbitrary: T rule: range_step.induct)
  case (1 i n)
  show ?case
  proof (cases "n \<le> i")
    case True
    with "1.prems" show ?thesis by simp
  next
    case False
    then have step: "range_step i n 450 = i # range_step (i + 450) n 450"
      by (simp add: range_step_cons)
    have ih: "concat (map (\<lambda>j. take 450 (slice T j (j + 500))) (range_step (i + 450) n 450))
                = drop (i + 450) T"
      using "1.hyps" [of T] False "1.prems" by simp
    have "take 450 (slice T i (i + 500)) = take 450 (drop i T)"
      by (simp add: slice_def)
    moreover have "take 450 (drop i T) @ drop (i + 450) T = drop i T"
      by (metis add.commute append_take_drop_id drop_drop)
    ultimately show ?thesis
      using step ih by simp
  qed
qed

lemma chunks_reconstruct: "concat (map (take 450) (chunk_text T)) = T"
  using concat_take_chunks [of "length T" T 0]
  by (simp add: chunk_text_def chunk_size_def comp_def)

lemma last_chunk_short:
  "n = length T \<Longrightarrow> i < n \<Longrightarrow>
   length (last (map (\<lambda>j. slice T j (j + 500)) (range_step i n 450))) \<le> 450"
proof (induction i n "450 :: nat" arbitrary: T rule: range_step.induct)
  case (1 i n)
  have step: "range_step i n 450 = i # range_step (i + 450) n 450"
    using "1.prems" by (simp add: range_step_cons)
  show ?case
  proof (cases "n \<le> i + 450")
    case True
    then show ?thesis
      using step "1.prems" by (simp add: slice_def)
  next
    case False
    then have "range_step (i + 450) n 450 \<noteq> []"
      by (simp add: range_step_cons)
    moreover have "length (last (map (\<lambda>j. slice T j (j + 500)) (range_step (i + 450) n 450))) \<le> 450"
      using "1.hyps" [of T] "1.prems" False by simp
    ultimately show ?thesis
      using step by simp
  qed
qed

lemma final_chunk_remainder: "T \<noteq> [] \<Longrightarrow> drop 450 (last (chunk_text T)) = []"
  using last_chunk_short [of "length T" T 0]
  by (simp add: chunk_text_def chunk_size_def)

text \<open>
  C1. For every text \<open>T\<close> chunked with size 500 and overlap 50 (step 450): every chunk
  has length at most 500; the first 450 characters of each chunk, followed by what the
  final chunk has beyond its first 450 characters, concatenate to \<open>T\<close> exactly; the
  empty text gives zero chunks, and \<open>index_document\<close> then returns without an error and
  leaves the engine (its store included) as it was, whatever the metadata.
\<close>

theorem C1_chunking:
  "(\<forall>c \<in> set (chunk_text T). length c \<le> 500)
   \<and> concat (map (take 450) (chunk_text T))
       @ (if chunk_text T = [] then [] else drop 450 (last (chunk_text T))) = T
   \<and> chunk_text [] = []
   \<and> index_document self suffix [] md = Inr self"
proof -
  have a: "\<forall>c \<in> set (chunk_text T). length c \<le> 500"
    using chunk_length_le by blast
  have b: "concat (map (take 450) (chunk_text T))
       @ (if chunk_text T = [] then [] else drop 450 (last (chunk_text T))) = T"
  proof (cases "T = []")
    case True
    then show ?thesis by simp
  next
    case False
    then show ?thesis
      by (simp add: chunks_reconstruct final_chunk_remainder)
  qed
  have c: "index_document self suffix [] md = Inr self"
    by (simp add: index_document_def)
  from a b c show ?thesis by simp
qed

theorem C1_chunking_witness:
  "chunk_text (replicate 1000 (CHR ''a'')) =
     [replicate 500 (CHR ''a''), replicate 500 (CHR ''a''), replicate 100 (CHR ''a'')]
   \<and> length (replicate 500 (CHR ''a'')) \<le> (500 :: nat)
   \<and> length (replicate 100 (CHR ''a'')) \<le> (500 :: nat)
   \<and> concat (map (take 450) (chunk_text (replicate 1000 (CHR ''a''))))
       @ drop 450 (last (chunk_text (replicate 1000 (CHR ''a'')))) = replicate 1000 (CHR ''a'')
   \<and> index_document \<lparr>collection = [], model = (\<lambda>t. Some (length t)), metric = (\<lambda>a b. 0)\<rparr>
         (\<lambda>i. ''00000000'') [] Map.empty
       = Inr \<lparr>collection = [], model = (\<lambda>t. Some (length t)), metric = (\<lambda>a b. 0)\<rparr>"
proof -
  have ch: "chunk_text (replicate 1000 (CHR ''a'')) =
     [replicate 500 (CHR ''a''), replicate 500 (CHR ''a''), replicate 100 (CHR ''a'')]"
    by (simp add: chunk_text_def chunk_size_def range_step.simps slice_def)
  show ?thesis
    using C1_chunking [of "replicate 1000 (CHR ''a'')"
        "\<lparr>collection = [], model = (\<lambda>t. Some (length t)), metric = (\<lambda>a b. 0)\<rparr>"
        "\<lambda>i. ''00000000''" Map.empty] ch
    by simp
qed

section \<open>Search\<close>

lemma search_success:
  assumes "model self query = Some v"
  shows "search self query n_results filters =
           Inr (map (result_row (metric self) v)
                  (nearest (metric self) (collection self) v n_results filters))"
proof -
  let ?rows = "nearest (metric self) (collection self) v n_results filters"
  let ?g = "\<lambda>i. result_row (metric self) v (?rows ! i)"
  have g: "map ?g [0..<length ?rows] = map (result_row (metric self) v) ?rows"
    by (intro nth_equalityI) simp_all
  have "search self query n_results filters =
        emap (\<lambda>i. ebind (py_nth (map entry_id ?rows) i) (\<lambda>rid.
                   ebind (py_nth (map document ?rows) i) (\<lambda>rdoc.
                   ebind (py_nth (map metadata ?rows) i) (\<lambda>rmeta.
                   ebind (py_nth (map (\<lambda>e. metric self v (embedding e)) ?rows) i) (\<lambda>rdist.
                     Inr \<lparr>res_id = rid, res_document = rdoc, res_metadata = rmeta,
                          relevance_score = 1 - rdist\<rparr>)))))
             [0..<length ?rows]"
    using assms by (simp add: search_def encode_single store_query_def)
  also have "\<dots> = Inr (map ?g [0..<length ?rows])"
    by (rule emap_ok) (simp add: py_nth_map result_row_def)
  finally show ?thesis
    using g by simp
qed

lemma search_failure:
  "model self query = None \<Longrightarrow> search self query n_results filters = Inl CapabilityError"
  by (simp add: search_def encode_single_fail)

lemma nearest_sorted: "sorted (map (\<lambda>e. dfun q (embedding e)) (nearest dfun s q k w))"
  by (simp add: nearest_def take_map [symmetric])

lemma nearest_length: "length (nearest dfun s q k w) \<le> nat k"
  by (simp add: nearest_def)


text \<open>
  C2. Whenever the embedder answers for the query, \<open>search\<close> returns a list with one
  row per entry the Index Store reports; row \<open>i\<close> carries the id the store reports at
  position \<open>i\<close> and a relevance score equal to 1 minus the distance the store reports
  there; the scores are non-increasing along the list; and the list is no longer than a
  non-negative requested limit \<open>n_results\<close>. (When the embedder raises, \<open>search\<close> raises
  and returns no list: lemma \<open>search_failure\<close>.)
\<close>

theorem C2_search_ranking:
  assumes "model self query = Some v"
  shows "\<exists>results. search self query n_results filters = Inr results
     \<and> length results
         = length (distances (store_query (metric self) (collection self) [v] n_results filters) ! 0)
     \<and> (\<forall>i < length results.
           res_id (results ! i)
             = ids (store_query (metric self) (collection self) [v] n_results filters) ! 0 ! i
         \<and> relevance_score (results ! i)
             = 1 - distances (store_query (metric self) (collection self) [v] n_results filters) ! 0 ! i)
     \<and> (\<forall>i j. i \<le> j \<and> j < length results \<longrightarrow>
           relevance_score (results ! j) \<le> relevance_score (results ! i))
     \<and> (0 \<le> n_results \<longrightarrow> int (length results) \<le> n_results)"
proof -
  let ?rows = "nearest (metric self) (collection self) v n_results filters"
  let ?qr = "store_query (metric self) (collection self) [v] n_results filters"
  let ?results = "map (result_row (metric self) v) ?rows"
  have s: "search self query n_results filters = Inr ?results"
    using assms by (rule search_success)
  have len: "length ?results = length (distances ?qr ! 0)"
    by (simp add: store_query_def)
  have row: "\<forall>i < length ?results.
           res_id (?results ! i) = ids ?qr ! 0 ! i
         \<and> relevance_score (?results ! i) = 1 - distances ?qr ! 0 ! i"
    by (simp add: store_query_def result_row_def)
  have mono: "\<forall>i j. i \<le> j \<and> j < length ?results \<longrightarrow>
           relevance_score (?results ! j) \<le> relevance_score (?results ! i)"
  proof (intro allI impI)
    fix i j
    assume ij: "i \<le> j \<and> j < length ?results"
    then have "map (\<lambda>e. metric self v (embedding e)) ?rows ! i
                 \<le> map (\<lambda>e. metric self v (embedding e)) ?rows ! j"
      using nearest_sorted [of "metric self" v "collection self" n_results filters]
      by (simp add: sorted_iff_nth_mono del: nth_map)
    with ij show "relevance_score (?results ! j) \<le> relevance_score (?results ! i)"
      by (simp add: result_row_def)
  qed
  have cnt: "0 \<le> n_results \<longrightarrow> int (length ?results) \<le> n_results"
    using nearest_length [of "metric self" "collection self" v n_results filters] by auto
  from s len row mono cnt show ?thesis
    by blast
qed

lemma ex_search:
  "search (ex_engine ex_store) ''abcd'' 2 None =
     Inr [\<lparr>res_id = ''c_0_33333333'', res_document = ''abcde'', res_metadata = [''source_url'' \<mapsto> ''u1''],
           relevance_score = 9 / 10\<rparr>,
          \<lparr>res_id = ''a_0_11111111'', res_document = ''ab'', res_metadata = [''source_url'' \<mapsto> ''u1''],
           relevance_score = 8 / 10\<rparr>]"
  by (simp add: search_success [where v = 4] ex_engine_def ex_model_def ex_metric_def ex_store_def
        ex_entry_def nearest_def matches_where_def result_row_def)

theorem C2_search_ranking_witness:
  "model (ex_engine ex_store) ''abcd'' = Some 4
   \<and> search (ex_engine ex_store) ''abcd'' 2 None =
     Inr [\<lparr>res_id = ''c_0_33333333'', res_document = ''abcde'', res_metadata = [''source_url'' \<mapsto> ''u1''],
           relevance_score = 9 / 10\<rparr>,
          \<lparr>res_id = ''a_0_11111111'', res_document = ''ab'', res_metadata = [''source_url'' \<mapsto> ''u1''],
           relevance_score = 8 / 10\<rparr>]
   \<and> distances (store_query ex_metric ex_store [4] 2 None) = [[1 / 10, 2 / 10]]
   \<and> ids (store_query ex_metric ex_store [4] 2 None) = [[''c_0_33333333'', ''a_0_11111111'']]
   \<and> (8 / 10 :: real) \<le> 9 / 10 \<and> (0 :: int) \<le> 2 \<and> int (length [0 :: nat, 1]) \<le> 2"
proof -
  have m: "model (ex_engine ex_store) ''abcd'' = Some 4"
    by (simp add: ex_engine_def ex_model_def)
  have q: "distances (store_query ex_metric ex_store [4] 2 None) = [[1 / 10, 2 / 10]]
     \<and> ids (store_query ex_metric ex_store [4] 2 None) = [[''c_0_33333333'', ''a_0_11111111'']]"
    by (simp add: store_query_def nearest_def ex_metric_def ex_store_def ex_entry_def matches_where_def)
  show ?thesis
    using C2_search_ranking [OF m, of 2 None] ex_search m q by simp
qed

section \<open>Chunk ids and upsert\<close>

lemma digit_val_digit_char: "d < 10 \<Longrightarrow> digit_val (digit_char d) = d"
proof -
  assume "d < 10"
  then have "d \<in> {0, 1, 2, 3, 4, 5, 6, 7, 8, 9}" by auto
  then show ?thesis
    by (auto simp: digit_val_def digit_char_def)
qed

lemma is_digit_digit_char: "d < 10 \<Longrightarrow> is_digit (digit_char d)"
proof -
  assume "d < 10"
  then have "d \<in> {0, 1, 2, 3, 4, 5, 6, 7, 8, 9}" by auto
  then show ?thesis
    by (auto simp: is_digit_def digit_char_def)
qed

lemma str_nat_digits: "list_all is_digit (str_nat n)"
proof (induction n rule: str_nat.induct)
  case (1 n)
  then show ?case
    by (subst str_nat.simps) (simp add: is_digit_digit_char)
qed

lemma str_nat_value: "digits_value (str_nat n) = n"
proof (induction n rule: str_nat.induct)
  case (1 n)
  then show ?case
    by (subst str_nat.simps) (simp add: digits_value_def digit_val_digit_char)
qed

lemma str_nat_inj: "str_nat i = str_nat j \<Longrightarrow> i = j"
  by (metis str_nat_value)

lemma str_nat_no_underscore: "CHR ''_'' \<notin> set (str_nat n)"
  using str_nat_digits [of n] by (auto simp: list_all_iff is_digit_def)

lemma chunk_id_inj:
  assumes "chunk_id title i s = chunk_id title j t"
  shows "i = j"
proof -
  have "str_nat i @ CHR ''_'' # s = str_nat j @ CHR ''_'' # t"
    using assms by (simp add: chunk_id_def)
  then have "takeWhile (\<lambda>c. c \<noteq> CHR ''_'') (str_nat i @ CHR ''_'' # s)
           = takeWhile (\<lambda>c. c \<noteq> CHR ''_'') (str_nat j @ CHR ''_'' # t)"
    by simp
  moreover have "\<And>n r. takeWhile (\<lambda>c. c \<noteq> CHR ''_'') (str_nat n @ CHR ''_'' # r) = str_nat n"
    using str_nat_no_underscore by (subst takeWhile_append2) auto
  ultimately show ?thesis
    using str_nat_inj by simp
qed



lemma indexed_entries_ids:
  "map entry_id (indexed_entries self suffix T md title)
     = map (\<lambda>i. chunk_id title i (suffix i)) [0..<length (chunk_text T)]"
  by (simp add: indexed_entries_def comp_def)

lemma indexed_entries_length [simp]:
  "length (indexed_entries self suffix T md title) = length (chunk_text T)"
  by (simp add: indexed_entries_def)

lemma indexed_entries_distinct: "distinct (map entry_id (indexed_entries self suffix T md title))"
  unfolding indexed_entries_ids
  by (auto simp: distinct_map inj_on_def dest: chunk_id_inj)

lemma upsert_rows_indexed:
  "upsert_rows (map (\<lambda>i. chunk_id title i (suffix i)) [0..<length (chunk_text T)])
       (map (\<lambda>t. the (model self t)) (chunk_text T)) (chunk_text T)
       (replicate (length (chunk_text T)) md)
     = indexed_entries self suffix T md title"
  by (intro nth_equalityI) (simp_all add: upsert_rows_def indexed_entries_def)



lemma overwritten_id [simp]: "entry_id (overwritten es x) = entry_id x"
  by (auto simp: overwritten_def split: option.splits dest: find_Some_iff [THEN iffD1])

lemma overwritten_fresh:
  assumes "entry_id x \<notin> set (map entry_id es)"
  shows "overwritten es x = x"
proof -
  have "find (\<lambda>e. entry_id e = entry_id x) es = None"
    using assms by (force simp: find_None_iff image_iff)
  then show ?thesis by (simp add: overwritten_def)
qed

lemma overwritten_Cons:
  "overwritten (e # es) x = (if entry_id e = entry_id x then e else overwritten es x)"
  by (simp add: overwritten_def)


lemma fold_upsert_eq:
  "distinct (map entry_id es) \<Longrightarrow>
   fold upsert_one es s
     = map (overwritten es) s @ filter (\<lambda>e. entry_id e \<notin> set (map entry_id s)) es"
proof (induction es arbitrary: s)
  case Nil
  then show ?case by (simp add: overwritten_def)
next
  case (Cons e es)
  have d: "distinct (map entry_id es)" and ne: "entry_id e \<notin> set (map entry_id es)"
    using Cons.prems by simp_all
  have ee: "overwritten es e = e"
    using ne by (rule overwritten_fresh)
  show ?case
  proof (cases "entry_id e \<in> set (map entry_id s)")
    case True
    let ?s' = "map (\<lambda>x. if entry_id x = entry_id e then e else x) s"
    have u: "upsert_one e s = ?s'"
      using True by (simp add: upsert_one_def)
    have ids: "map entry_id ?s' = map entry_id s"
      by (induction s) auto
    have "\<And>x. overwritten es (if entry_id x = entry_id e then e else x) = overwritten (e # es) x"
      using ee by (auto simp: overwritten_Cons)
    then have "map (overwritten es) ?s' = map (overwritten (e # es)) s"
      by (simp add: comp_def)
    moreover have "filter (\<lambda>x. entry_id x \<notin> set (map entry_id ?s')) es
        = filter (\<lambda>x. entry_id x \<notin> set (map entry_id s)) (e # es)"
      using True by (simp only: ids) simp
    ultimately show ?thesis
      using Cons.IH [OF d, of ?s'] u by simp
  next
    case False
    have u: "upsert_one e s = s @ [e]"
      using False by (simp add: upsert_one_def)
    have "map (overwritten es) (s @ [e]) = map (overwritten (e # es)) s @ [e]"
    proof -
      have "\<forall>x \<in> set s. overwritten es x = overwritten (e # es) x"
        using False by (auto simp: overwritten_Cons)
      then show ?thesis by (simp add: ee)
    qed
    moreover have "filter (\<lambda>x. entry_id x \<notin> set (map entry_id (s @ [e]))) es
        = filter (\<lambda>x. entry_id x \<notin> set (map entry_id s)) es"
      using ne by (intro filter_cong) (force simp: image_iff)+
    ultimately show ?thesis
      using Cons.IH [OF d, of "s @ [e]"] u False by simp
  qed
qed

lemma index_document_upsert:
  assumes chunks: "chunk_text T \<noteq> []"
    and title: "md ''title'' = Some title"
    and emb: "\<forall>c \<in> set (chunk_text T). model self c \<noteq> None"
  shows "index_document self suffix T md
           = Inr (self\<lparr>collection :=
                   map (overwritten (indexed_entries self suffix T md title)) (collection self)
                   @ filter (\<lambda>e. entry_id e \<notin> set (map entry_id (collection self)))
                       (indexed_entries self suffix T md title)\<rparr>)"
proof -
  have enc: "encode (model self) (chunk_text T) = Inr (map (\<lambda>t. the (model self t)) (chunk_text T))"
    using emb by (simp add: encode_def list_all_iff)
  have "store_upsert (collection self)
          (map (\<lambda>i. chunk_id title i (suffix i)) [0..<length (chunk_text T)])
          (map (\<lambda>t. the (model self t)) (chunk_text T)) (chunk_text T)
          (replicate (length (chunk_text T)) md)
        = map (overwritten (indexed_entries self suffix T md title)) (collection self)
          @ filter (\<lambda>e. entry_id e \<notin> set (map entry_id (collection self)))
              (indexed_entries self suffix T md title)"
    unfolding store_upsert_def upsert_rows_indexed
    using indexed_entries_distinct by (rule fold_upsert_eq)
  then show ?thesis
    using chunks title enc by (simp add: index_document_def Let_def)
qed

lemma filter_ids:
  "map entry_id (filter (\<lambda>e. entry_id e \<notin> S) es) = filter (\<lambda>i. i \<notin> S) (map entry_id es)"
  by (induction es) simp_all

text \<open>
  C4 (as amended). For every call of \<open>index_document\<close> with a non-empty chunk list, a
  title in the metadata and an embedder that answers, the call succeeds and the ids it
  generates are \<open>{title}_{chunk_index}_{suffix}\<close>, one per chunk and pairwise distinct
  within the call. The suffix is eight characters of a random uuid, so nothing keeps an
  id of this call from being one that a prior pass stored. What \<open>upsert\<close> does is
  this: the ids in the store afterwards are the ids stored before, in place, followed
  by the generated ids that were not stored yet; \<open>count()\<close> grows by the number of
  generated ids that were not stored yet; a stored entry whose id is not generated
  again is unchanged. In the case that no generated id is stored yet, every entry
  stored before is still there unchanged and \<open>count()\<close> grows by the number of chunks,
  so strictly: then re-indexing a document leaves the chunks of the earlier pass in the
  store alongside the new ones.
\<close>

theorem C4_reindex_upsert:
  assumes "chunk_text T \<noteq> []"
    and "md ''title'' = Some title"
    and "\<forall>c \<in> set (chunk_text T). model self c \<noteq> None"
  shows "\<exists>self'. index_document self suffix T md = Inr self'
     \<and> distinct (map (\<lambda>i. title @ ''_'' @ str_nat i @ ''_'' @ suffix i) [0..<length (chunk_text T)])
     \<and> map entry_id (collection self')
         = map entry_id (collection self)
           @ filter (\<lambda>i. i \<notin> set (map entry_id (collection self)))
               (map (\<lambda>i. title @ ''_'' @ str_nat i @ ''_'' @ suffix i) [0..<length (chunk_text T)])
     \<and> get_document_count self'
         = get_document_count self
           + length (filter (\<lambda>i. i \<notin> set (map entry_id (collection self)))
               (map (\<lambda>i. title @ ''_'' @ str_nat i @ ''_'' @ suffix i) [0..<length (chunk_text T)]))
     \<and> (\<forall>k < length (collection self).
           entry_id (collection self ! k)
             \<notin> set (map (\<lambda>i. title @ ''_'' @ str_nat i @ ''_'' @ suffix i) [0..<length (chunk_text T)])
           \<longrightarrow> collection self' ! k = collection self ! k)
     \<and> ((\<forall>i < length (chunk_text T).
            title @ ''_'' @ str_nat i @ ''_'' @ suffix i \<notin> set (map entry_id (collection self)))
         \<longrightarrow> take (length (collection self)) (collection self') = collection self
           \<and> get_document_count self' = get_document_count self + length (chunk_text T)
           \<and> get_document_count self < get_document_count self')"
proof -
  let ?new = "indexed_entries self suffix T md title"
  let ?ids = "map (\<lambda>i. title @ ''_'' @ str_nat i @ ''_'' @ suffix i) [0..<length (chunk_text T)]"
  let ?old = "set (map entry_id (collection self))"
  let ?self' = "self\<lparr>collection := map (overwritten ?new) (collection self)
                   @ filter (\<lambda>e. entry_id e \<notin> ?old) ?new\<rparr>"
  have ids: "map entry_id ?new = ?ids"
    by (simp add: indexed_entries_ids chunk_id_def)
  have a: "index_document self suffix T md = Inr ?self'"
    using assms by (rule index_document_upsert)
  have b: "distinct ?ids"
    using indexed_entries_distinct [of self suffix T md title] by (simp only: ids)
  have c: "map entry_id (collection ?self') = map entry_id (collection self) @ filter (\<lambda>i. i \<notin> ?old) ?ids"
    by (simp add: filter_ids ids comp_def)
  have d: "get_document_count ?self'
         = get_document_count self + length (filter (\<lambda>i. i \<notin> ?old) ?ids)"
    using arg_cong [OF c, of length] by (simp add: get_document_count_def store_count_def)
  have e: "\<forall>k < length (collection self). entry_id (collection self ! k) \<notin> set ?ids
           \<longrightarrow> collection ?self' ! k = collection self ! k"
  proof (intro allI impI)
    fix k
    assume k: "k < length (collection self)" and n: "entry_id (collection self ! k) \<notin> set ?ids"
    have "entry_id (collection self ! k) \<notin> set (map entry_id ?new)"
      using n unfolding ids .
    then have "overwritten ?new (collection self ! k) = collection self ! k"
      by (rule overwritten_fresh)
    then show "collection ?self' ! k = collection self ! k"
      using k by (simp add: nth_append)
  qed
  have f: "(\<forall>i < length (chunk_text T).
            title @ ''_'' @ str_nat i @ ''_'' @ suffix i \<notin> ?old)
         \<longrightarrow> take (length (collection self)) (collection ?self') = collection self
           \<and> get_document_count ?self' = get_document_count self + length (chunk_text T)
           \<and> get_document_count self < get_document_count ?self'"
  proof
    assume fresh: "\<forall>i < length (chunk_text T). title @ ''_'' @ str_nat i @ ''_'' @ suffix i \<notin> ?old"
    then have "\<forall>i \<in> set ?ids. i \<notin> ?old"
      by auto
    then have "filter (\<lambda>i. i \<notin> ?old) ?ids = ?ids"
      by (simp only: filter_True)
    then have n: "get_document_count ?self' = get_document_count self + length (chunk_text T)"
      using d by simp
    have "take (length (collection self)) (collection ?self') = map (overwritten ?new) (collection self)"
      by simp
    moreover have "map (overwritten ?new) (collection self) = collection self"
    proof (rule map_idI)
      fix x
      assume "x \<in> set (collection self)"
      then have "entry_id x \<in> ?old" by simp
      with \<open>\<forall>i \<in> set ?ids. i \<notin> ?old\<close> have "entry_id x \<notin> set (map entry_id ?new)"
        unfolding ids by blast
      then show "overwritten ?new x = x"
        by (rule overwritten_fresh)
    qed
    ultimately show "take (length (collection self)) (collection ?self') = collection self
           \<and> get_document_count ?self' = get_document_count self + length (chunk_text T)
           \<and> get_document_count self < get_document_count ?self'"
      using n assms(1) by simp
  qed
  from a b c d e f show ?thesis
    by blast
qed

lemma chunk_text_short: "T \<noteq> [] \<Longrightarrow> length T \<le> 450 \<Longrightarrow> chunk_text T = [T]"
  by (simp add: chunk_text_def chunk_size_def range_step_cons slice_def)

lemma ex_first_index:
  "index_document (ex_engine []) (\<lambda>i. ''aaaaaaaa'') ''exam'' ex_md = Inr (ex_engine ex_first_pass)"
  by (simp add: index_document_def chunk_text_short encode_def ex_engine_def ex_model_def
        ex_first_pass_def ex_md_def store_upsert_def upsert_rows_def upsert_one_def chunk_id_def
        str_nat.simps digit_char_def)

text \<open>
  The claim C4 as stated has the ids of a re-indexing distinct from those of any prior
  pass, and \<open>count()\<close> strictly increasing. When the second pass over the text \<open>exam\<close>
  draws the suffix of the first again, the id is the one already stored, \<open>upsert\<close>
  overwrites the entry and \<open>count()\<close> stays 1.
\<close>

theorem C4_repeated_suffix_counterexample:
  "chunk_text ''exam'' \<noteq> []
   \<and> index_document (ex_engine []) (\<lambda>i. ''aaaaaaaa'') ''exam'' ex_md = Inr (ex_engine ex_first_pass)
   \<and> index_document (ex_engine ex_first_pass) (\<lambda>i. ''aaaaaaaa'') ''exam'' ex_md
       = Inr (ex_engine ex_first_pass)
   \<and> get_document_count (ex_engine ex_first_pass) = 1
   \<and> \<not> get_document_count (ex_engine ex_first_pass) < get_document_count (ex_engine ex_first_pass)"
proof -
  have "index_document (ex_engine ex_first_pass) (\<lambda>i. ''aaaaaaaa'') ''exam'' ex_md
       = Inr (ex_engine ex_first_pass)"
    by (simp add: index_document_def chunk_text_short encode_def ex_engine_def ex_model_def
        ex_first_pass_def ex_md_def store_upsert_def upsert_rows_def upsert_one_def chunk_id_def
        str_nat.simps digit_char_def)
  then show ?thesis
    using ex_first_index
    by (simp add: chunk_text_short get_document_count_def store_count_def ex_engine_def
          ex_first_pass_def)
qed

theorem C4_reindex_upsert_witness:
  "index_document (ex_engine []) (\<lambda>i. ''aaaaaaaa'') ''exam'' ex_md = Inr (ex_engine ex_first_pass)
   \<and> chunk_text ''exam'' = [''exam'']
   \<and> ex_md ''title'' = Some ''notice''
   \<and> model (ex_engine ex_first_pass) ''exam'' \<noteq> None
   \<and> get_document_count (ex_engine ex_first_pass) = 1
   \<and> (\<exists>self'. index_document (ex_engine ex_first_pass) (\<lambda>i. ''bbbbbbbb'') ''exam'' ex_md = Inr self'
        \<and> map entry_id (collection self') = [''notice_0_aaaaaaaa'', ''notice_0_bbbbbbbb'']
        \<and> take 1 (collection self') = ex_first_pass
        \<and> get_document_count self' = 2)"
proof -
  have c: "chunk_text ''exam'' = [''exam'']"
    by (simp add: chunk_text_short)
  have h1: "chunk_text ''exam'' \<noteq> []"
    by (simp add: c)
  have h2: "ex_md ''title'' = Some ''notice''"
    by (simp add: ex_md_def)
  have h3: "\<forall>c \<in> set (chunk_text ''exam''). model (ex_engine ex_first_pass) c \<noteq> None"
    by (simp add: c ex_engine_def ex_model_def)
  have n: "get_document_count (ex_engine ex_first_pass) = 1"
    by (simp add: get_document_count_def store_count_def ex_engine_def ex_first_pass_def)
  have l: "length ex_first_pass = 1"
    by (simp add: ex_first_pass_def)
  have ids: "map entry_id ex_first_pass = [''notice_0_aaaaaaaa'']"
    by (simp add: ex_first_pass_def)
  have col: "collection (ex_engine ex_first_pass) = ex_first_pass"
    by (simp add: ex_engine_def)
  have new: "map (\<lambda>i. ''notice'' @ ''_'' @ str_nat i @ ''_'' @ ''bbbbbbbb'') [0..<length (chunk_text ''exam'')]
               = [''notice_0_bbbbbbbb'']"
    by (simp add: c str_nat.simps digit_char_def)
  obtain self' where s:
      "index_document (ex_engine ex_first_pass) (\<lambda>i. ''bbbbbbbb'') ''exam'' ex_md = Inr self'"
      "map entry_id (collection self')
         = map entry_id (collection (ex_engine ex_first_pass))
           @ filter (\<lambda>i. i \<notin> set (map entry_id (collection (ex_engine ex_first_pass))))
               (map (\<lambda>i. ''notice'' @ ''_'' @ str_nat i @ ''_'' @ ''bbbbbbbb'')
                  [0..<length (chunk_text ''exam'')])"
      "(\<forall>i < length (chunk_text ''exam'').
            ''notice'' @ ''_'' @ str_nat i @ ''_'' @ ''bbbbbbbb''
              \<notin> set (map entry_id (collection (ex_engine ex_first_pass))))
         \<longrightarrow> take (length (collection (ex_engine ex_first_pass))) (collection self')
               = collection (ex_engine ex_first_pass)
           \<and> get_document_count self'
               = get_document_count (ex_engine ex_first_pass) + length (chunk_text ''exam'')
           \<and> get_document_count (ex_engine ex_first_pass) < get_document_count self'"
    using C4_reindex_upsert [where suffix = "\<lambda>i. ''bbbbbbbb''" and md = ex_md
        and T = "''exam''" and title = "''notice''" and self = "ex_engine ex_first_pass",
        OF h1 h2 h3]
    by blast
  have fr: "\<forall>i < length (chunk_text ''exam'').
            ''notice'' @ ''_'' @ str_nat i @ ''_'' @ ''bbbbbbbb''
              \<notin> set (map entry_id (collection (ex_engine ex_first_pass)))"
    by (simp add: c col ids str_nat.simps digit_char_def)
  have "index_document (ex_engine ex_first_pass) (\<lambda>i. ''bbbbbbbb'') ''exam'' ex_md = Inr self'
        \<and> map entry_id (collection self') = [''notice_0_aaaaaaaa'', ''notice_0_bbbbbbbb'']
        \<and> take 1 (collection self') = ex_first_pass
        \<and> get_document_count self' = 2"
    using s(1) s(2) s(3) [THEN mp, OF fr]
    by (simp add: col ids l n c str_nat.simps digit_char_def)
  then have "\<exists>self'. index_document (ex_engine ex_first_pass) (\<lambda>i. ''bbbbbbbb'') ''exam'' ex_md = Inr self'
        \<and> map entry_id (collection self') = [''notice_0_aaaaaaaa'', ''notice_0_bbbbbbbb'']
        \<and> take 1 (collection self') = ex_first_pass
        \<and> get_document_count self' = 2"
    by (rule exI)
  then show ?thesis
    using ex_first_index c h2 n
    by (simp add: ex_engine_def ex_model_def)
qed

section \<open>The document lifecycle: indexing and deleting\<close>

lemma build_metadata_title [simp]: "build_metadata p d c ''title'' = Some (stem p)"
  by (simp add: build_metadata_def)

lemma build_metadata_source_url [simp]:
  "build_metadata p d c ''source_url'' = Some (target_url (name p))"
  by (simp add: build_metadata_def target_url_def)

lemma target_url_inj [simp]: "target_url a = target_url b \<longleftrightarrow> a = b"
  by (simp add: target_url_def)

lemma matches_source_url [simp]:
  "matches_where (Some [(''source_url'', u)]) m \<longleftrightarrow> m ''source_url'' = Some u"
  by (simp add: matches_where_def)
















lemma ex_date_a: "extract_date_from_text ''2026-11-03'' ''Exam on 10/10/2025'' = ''10/10/2025''"
  by code_simp


lemma ex_category_a: "categorize (lower ''Exam on 10/10/2025'') = ''Exams''"
  by code_simp


lemma ex_process_a:
  "process_file ex_ocr ''2026-11-03'' (ex_engine []) (\<lambda>i. ''aaaaaaaa'') ex_path_a
     = (True, ex_engine [ex_entry_a])"
  by (simp add: process_file_def ex_ocr_def ex_path_a_def ex_date_a ex_category_a
        index_document_def chunk_text_short encode_def ex_engine_def ex_model_def ex_entry_a_def
        store_upsert_def upsert_rows_def upsert_one_def chunk_id_def str_nat.simps digit_char_def)






section \<open>The outcomes of process\_file\<close>

lemma process_file_cases:
  "process_file ocr today e suf p =
     (if ocr_text ocr p = [] then (False, e)
      else case index_document e suf (ocr_text ocr p)
                  (build_metadata p (extract_date_from_text today (ocr_text ocr p))
                     (categorize (lower (ocr_text ocr p)))) of
             Inl err \<Rightarrow> (False, e)
           | Inr e' \<Rightarrow> (True, e'))"
  by (simp add: process_file_def ocr_text_def Let_def split: sum.splits option.splits)

lemma backend_process_file_cases:
  "backend_process_file ocr today e suf p =
     (if ocr_text ocr p = [] then (False, e)
      else case index_document e suf (ocr_text ocr p)
                  (build_metadata p (backend_extract_date_from_text today (ocr_text ocr p))
                     (backend_categorize (lower (ocr_text ocr p)))) of
             Inl err \<Rightarrow> (False, e)
           | Inr e' \<Rightarrow> (True, e'))"
  by (simp add: backend_process_file_def ocr_text_def Let_def split: sum.splits option.splits)

lemma ocr_text_empty_iff:
  "ocr_text ocr p = [] \<longleftrightarrow>
     (\<exists>err. ocr (path_str p) = Inl err)
     \<or> (\<exists>d. ocr (path_str p) = Inr d \<and> (d ''text'' = None \<or> d ''text'' = Some []))"
  by (auto simp: ocr_text_def split: sum.splits option.splits)

text \<open>
  C7. \<open>process_file\<close> (in app.py and in backend\_main.py) always returns a boolean, for
  every path and every behaviour of its collaborators. It returns \<open>False\<close> and leaves the
  engine as it was when the OCR collaborator yields a dict with no text or with the
  empty text, when the OCR collaborator raises, and when \<open>index_document\<close> raises. It
  returns \<open>True\<close> only when the text was not empty and \<open>index_document\<close> returned; the
  engine is then the one \<open>index_document\<close> left. (Deriving the date and the category
  cannot raise on a string.)
\<close>

theorem C7_process_file_never_raises:
  "(\<forall>d. ocr (path_str p) = Inr d \<and> (d ''text'' = None \<or> d ''text'' = Some [])
        \<longrightarrow> process_file ocr today e suf p = (False, e)
          \<and> backend_process_file ocr today e suf p = (False, e))
   \<and> (\<forall>err. ocr (path_str p) = Inl err
        \<longrightarrow> process_file ocr today e suf p = (False, e)
          \<and> backend_process_file ocr today e suf p = (False, e))
   \<and> (\<forall>err. index_document e suf (ocr_text ocr p)
               (build_metadata p (extract_date_from_text today (ocr_text ocr p))
                  (categorize (lower (ocr_text ocr p)))) = Inl err
        \<longrightarrow> process_file ocr today e suf p = (False, e))
   \<and> (\<forall>err. index_document e suf (ocr_text ocr p)
               (build_metadata p (backend_extract_date_from_text today (ocr_text ocr p))
                  (backend_categorize (lower (ocr_text ocr p)))) = Inl err
        \<longrightarrow> backend_process_file ocr today e suf p = (False, e))
   \<and> (\<forall>e'. process_file ocr today e suf p = (True, e')
        \<longrightarrow> ocr_text ocr p \<noteq> []
          \<and> index_document e suf (ocr_text ocr p)
               (build_metadata p (extract_date_from_text today (ocr_text ocr p))
                  (categorize (lower (ocr_text ocr p)))) = Inr e')
   \<and> (\<forall>e'. backend_process_file ocr today e suf p = (True, e')
        \<longrightarrow> ocr_text ocr p \<noteq> []
          \<and> index_document e suf (ocr_text ocr p)
               (build_metadata p (backend_extract_date_from_text today (ocr_text ocr p))
                  (backend_categorize (lower (ocr_text ocr p)))) = Inr e')
   \<and> (\<exists>b e'. process_file ocr today e suf p = (b, e')
          \<and> (b \<or> e' = e))
   \<and> (\<exists>b e'. backend_process_file ocr today e suf p = (b, e')
          \<and> (b \<or> e' = e))"
proof -
  have a: "\<forall>d. ocr (path_str p) = Inr d \<and> (d ''text'' = None \<or> d ''text'' = Some [])
        \<longrightarrow> process_file ocr today e suf p = (False, e)
          \<and> backend_process_file ocr today e suf p = (False, e)"
    using ocr_text_empty_iff [of ocr p]
    by (auto simp: process_file_cases backend_process_file_cases)
  have b: "\<forall>err. ocr (path_str p) = Inl err
        \<longrightarrow> process_file ocr today e suf p = (False, e)
          \<and> backend_process_file ocr today e suf p = (False, e)"
    using ocr_text_empty_iff [of ocr p]
    by (auto simp: process_file_cases backend_process_file_cases)
  have c: "\<forall>err. index_document e suf (ocr_text ocr p)
               (build_metadata p (extract_date_from_text today (ocr_text ocr p))
                  (categorize (lower (ocr_text ocr p)))) = Inl err
        \<longrightarrow> process_file ocr today e suf p = (False, e)"
    by (auto simp: process_file_cases)
  have d: "\<forall>err. index_document e suf (ocr_text ocr p)
               (build_metadata p (backend_extract_date_from_text today (ocr_text ocr p))
                  (backend_categorize (lower (ocr_text ocr p)))) = Inl err
        \<longrightarrow> backend_process_file ocr today e suf p = (False, e)"
    by (auto simp: backend_process_file_cases)
  have f: "\<forall>e'. process_file ocr today e suf p = (True, e')
        \<longrightarrow> ocr_text ocr p \<noteq> []
          \<and> index_document e suf (ocr_text ocr p)
               (build_metadata p (extract_date_from_text today (ocr_text ocr p))
                  (categorize (lower (ocr_text ocr p)))) = Inr e'"
    by (auto simp: process_file_cases split: if_splits sum.splits)
  have g: "\<forall>e'. backend_process_file ocr today e suf p = (True, e')
        \<longrightarrow> ocr_text ocr p \<noteq> []
          \<and> index_document e suf (ocr_text ocr p)
               (build_metadata p (backend_extract_date_from_text today (ocr_text ocr p))
                  (backend_categorize (lower (ocr_text ocr p)))) = Inr e'"
    by (auto simp: backend_process_file_cases split: if_splits sum.splits)
  have h: "\<exists>b e'. process_file ocr today e suf p = (b, e') \<and> (b \<or> e' = e)"
    by (auto simp: process_file_cases split: sum.splits)
  have i: "\<exists>b e'. backend_process_file ocr today e suf p = (b, e') \<and> (b \<or> e' = e)"
    by (auto simp: backend_process_file_cases split: sum.splits)
  from a b c d f g h i show ?thesis
    by blast
qed

theorem C7_process_file_never_raises_witness:
  "ex_ocr (path_str ex_path_c) = Inr [''text'' \<mapsto> '''']
   \<and> process_file ex_ocr ''2026-11-03'' (ex_engine []) (\<lambda>i. ''aaaaaaaa'') ex_path_c
       = (False, ex_engine [])
   \<and> backend_process_file ex_ocr ''2026-11-03'' (ex_engine []) (\<lambda>i. ''aaaaaaaa'') ex_path_c
       = (False, ex_engine [])
   \<and> process_file (\<lambda>s. Inl CapabilityError) ''2026-11-03'' (ex_engine []) (\<lambda>i. ''aaaaaaaa'') ex_path_a
       = (False, ex_engine [])
   \<and> process_file ex_ocr ''2026-11-03'' (ex_engine []) (\<lambda>i. ''aaaaaaaa'') ex_path_a
       = (True, ex_engine [ex_entry_a])
   \<and> ocr_text ex_ocr ex_path_a = ''Exam on 10/10/2025''
   \<and> index_document (ex_engine []) (\<lambda>i. ''aaaaaaaa'') ''Exam on 10/10/2025''
         (build_metadata ex_path_a ''10/10/2025'' ''Exams'') = Inr (ex_engine [ex_entry_a])"
proof -
  have oc: "ex_ocr (path_str ex_path_c) = Inr [''text'' \<mapsto> '''']"
    by (simp add: ex_ocr_def ex_path_c_def)
  have em: "[''text'' \<mapsto> ''''] ''text'' = Some []"
    by simp
  have 1: "process_file ex_ocr ''2026-11-03'' (ex_engine []) (\<lambda>i. ''aaaaaaaa'') ex_path_c
             = (False, ex_engine [])
         \<and> backend_process_file ex_ocr ''2026-11-03'' (ex_engine []) (\<lambda>i. ''aaaaaaaa'') ex_path_c
             = (False, ex_engine [])"
    using C7_process_file_never_raises [where ocr = ex_ocr and p = ex_path_c
        and today = "''2026-11-03''" and e = "ex_engine []" and suf = "\<lambda>i. ''aaaaaaaa''"] oc em
    by blast
  have 2: "process_file (\<lambda>s. Inl CapabilityError) ''2026-11-03'' (ex_engine []) (\<lambda>i. ''aaaaaaaa'')
             ex_path_a = (False, ex_engine [])"
    using C7_process_file_never_raises [where ocr = "\<lambda>s. Inl CapabilityError" and p = ex_path_a
        and today = "''2026-11-03''" and e = "ex_engine []" and suf = "\<lambda>i. ''aaaaaaaa''"]
    by blast
  have ta: "ocr_text ex_ocr ex_path_a = ''Exam on 10/10/2025''"
    by (simp add: ocr_text_def ex_ocr_def ex_path_a_def)
  have "index_document (ex_engine []) (\<lambda>i. ''aaaaaaaa'') (ocr_text ex_ocr ex_path_a)
         (build_metadata ex_path_a (extract_date_from_text ''2026-11-03'' (ocr_text ex_ocr ex_path_a))
            (categorize (lower (ocr_text ex_ocr ex_path_a)))) = Inr (ex_engine [ex_entry_a])"
    using C7_process_file_never_raises [where ocr = ex_ocr and p = ex_path_a
        and today = "''2026-11-03''" and e = "ex_engine []" and suf = "\<lambda>i. ''aaaaaaaa''"]
      ex_process_a
    by blast
  then have 3: "index_document (ex_engine []) (\<lambda>i. ''aaaaaaaa'') ''Exam on 10/10/2025''
         (build_metadata ex_path_a ''10/10/2025'' ''Exams'') = Inr (ex_engine [ex_entry_a])"
    by (simp add: ta ex_date_a ex_category_a)
  from oc 1 2 3 ta ex_process_a show ?thesis
    by simp
qed

section \<open>The search endpoint\<close>

text \<open>
  C9. The search endpoint (in app.py and in backend\_main.py) calls the engine with the
  query text and the limit of the request and never with its filters: two requests with
  the same query and the same limit get the same outcome, the same results in the same
  order, whatever their filters are.
\<close>

theorem C9_filters_not_forwarded:
  assumes "sq_query q1 = sq_query q2" and "sq_limit q1 = sq_limit q2"
  shows "search_documents llm current_year e q1 = search_documents llm current_year e q2
     \<and> backend_search_documents e q1 = backend_search_documents e q2"
  unfolding search_documents_def backend_search_documents_def assms by simp

lemma ex_search_all:
  "search (ex_engine [ex_entry_a, ex_entry_b]) ''exam'' 5 None
     = Inr [\<lparr>res_id = ''b_0_bbbbbbbb'', res_document = ''Fee notice'',
             res_metadata = build_metadata ex_path_b ''2026-11-03'' ''Fees'',
             relevance_score = 4 / 10\<rparr>,
            \<lparr>res_id = ''a_0_aaaaaaaa'', res_document = ''Exam on 10/10/2025'',
             res_metadata = build_metadata ex_path_a ''10/10/2025'' ''Exams'',
             relevance_score = - 4 / 10\<rparr>]"
  by (simp add: search_success [where v = 4] ex_engine_def ex_model_def ex_metric_def
        ex_entry_a_def ex_entry_b_def nearest_def matches_where_def result_row_def)

lemma ex_search_filtered:
  "search (ex_engine [ex_entry_a, ex_entry_b]) ''exam'' 5
       (Some [(''source_url'', ''http://localhost:8000/files/a.pdf'')])
     = Inr [\<lparr>res_id = ''a_0_aaaaaaaa'', res_document = ''Exam on 10/10/2025'',
             res_metadata = build_metadata ex_path_a ''10/10/2025'' ''Exams'',
             relevance_score = - 4 / 10\<rparr>]"
  by (simp add: search_success [where v = 4] ex_engine_def ex_model_def ex_metric_def
        ex_entry_a_def ex_entry_b_def nearest_def matches_where_def result_row_def
        build_metadata_def ex_path_a_def ex_path_b_def)

theorem C9_filters_not_forwarded_witness:
  "sq_query (ex_query None) = sq_query (ex_query (Some [(''source_url'', ''http://localhost:8000/files/a.pdf'')]))
   \<and> sq_limit (ex_query None) = sq_limit (ex_query (Some [(''source_url'', ''http://localhost:8000/files/a.pdf'')]))
   \<and> sq_filters (ex_query None) \<noteq> sq_filters (ex_query (Some [(''source_url'', ''http://localhost:8000/files/a.pdf'')]))
   \<and> search_documents (\<lambda>p. Some ''None'') 2025 (ex_engine [ex_entry_a, ex_entry_b]) (ex_query None)
       = search_documents (\<lambda>p. Some ''None'') 2025 (ex_engine [ex_entry_a, ex_entry_b])
           (ex_query (Some [(''source_url'', ''http://localhost:8000/files/a.pdf'')]))
   \<and> backend_search_documents (ex_engine [ex_entry_a, ex_entry_b])
         (ex_query (Some [(''source_url'', ''http://localhost:8000/files/a.pdf'')]))
       = Inr [\<lparr>bsr_id = ''b_0_bbbbbbbb'', bsr_title = ''b'', bsr_content = ''Fee notice'',
               bsr_source_url = ''http://localhost:8000/files/b.png'', bsr_date = ''2026-11-03'',
               bsr_relevance_score = 4 / 10, bsr_category = ''Fees''\<rparr>,
              \<lparr>bsr_id = ''a_0_aaaaaaaa'', bsr_title = ''a'', bsr_content = ''Exam on 10/10/2025'',
               bsr_source_url = ''http://localhost:8000/files/a.pdf'', bsr_date = ''10/10/2025'',
               bsr_relevance_score = - 4 / 10, bsr_category = ''Exams''\<rparr>]
   \<and> search (ex_engine [ex_entry_a, ex_entry_b]) ''exam'' 5
         (Some [(''source_url'', ''http://localhost:8000/files/a.pdf'')])
       \<noteq> search (ex_engine [ex_entry_a, ex_entry_b]) ''exam'' 5 None"
proof -
  let ?f = "Some [(''source_url'', ''http://localhost:8000/files/a.pdf'')]"
  have h1: "sq_query (ex_query None) = sq_query (ex_query ?f)"
    by (simp add: ex_query_def)
  have h2: "sq_limit (ex_query None) = sq_limit (ex_query ?f)"
    by (simp add: ex_query_def)
  have b: "backend_search_documents (ex_engine [ex_entry_a, ex_entry_b]) (ex_query None)
       = Inr [\<lparr>bsr_id = ''b_0_bbbbbbbb'', bsr_title = ''b'', bsr_content = ''Fee notice'',
               bsr_source_url = ''http://localhost:8000/files/b.png'', bsr_date = ''2026-11-03'',
               bsr_relevance_score = 4 / 10, bsr_category = ''Fees''\<rparr>,
              \<lparr>bsr_id = ''a_0_aaaaaaaa'', bsr_title = ''a'', bsr_content = ''Exam on 10/10/2025'',
               bsr_source_url = ''http://localhost:8000/files/a.pdf'', bsr_date = ''10/10/2025'',
               bsr_relevance_score = - 4 / 10, bsr_category = ''Exams''\<rparr>]"
    by (simp add: backend_search_documents_def ex_query_def ex_search_all meta_get_def
          build_metadata_def ex_path_a_def ex_path_b_def)
  show ?thesis
    using C9_filters_not_forwarded [OF h1 h2, of "\<lambda>p. Some ''None''" 2025
        "ex_engine [ex_entry_a, ex_entry_b]"] b
    by (simp add: ex_search_all ex_search_filtered) (simp add: ex_query_def)
qed

section \<open>Answer extraction: the LLM fallback\<close>

lemma startswith_iff: "startswith s p \<longleftrightarrow> (\<exists>post. s = p @ post)"
  by (induction s p rule: startswith.induct) auto

lemma py_in_iff: "py_in sub s \<longleftrightarrow> (\<exists>pre post. s = pre @ sub @ post)"
proof (induction s)
  case Nil
  then show ?case by auto
next
  case (Cons c cs)
  show ?case
  proof
    assume "py_in sub (c # cs)"
    then consider "startswith (c # cs) sub" | "py_in sub cs" by auto
    then show "\<exists>pre post. c # cs = pre @ sub @ post"
    proof cases
      case 1
      then obtain post where "c # cs = sub @ post" by (auto simp: startswith_iff)
      then have "c # cs = [] @ sub @ post" by simp
      then show ?thesis by blast
    next
      case 2
      then obtain pre post where "cs = pre @ sub @ post" using Cons.IH by blast
      then have "c # cs = (c # pre) @ sub @ post" by simp
      then show ?thesis by blast
    qed
  next
    assume "\<exists>pre post. c # cs = pre @ sub @ post"
    then obtain pre post where e: "c # cs = pre @ sub @ post" by blast
    show "py_in sub (c # cs)"
    proof (cases pre)
      case Nil
      with e have "startswith (c # cs) sub" by (auto simp: startswith_iff)
      then show ?thesis by simp
    next
      case (Cons a pre')
      with e have "cs = pre' @ sub @ post" by simp
      then have "py_in sub cs" using Cons.IH by blast
      then show ?thesis by simp
    qed
  qed
qed

lemma strip_decomp:
  "\<exists>pre post. raw = pre @ strip raw @ post \<and> list_all is_space pre \<and> list_all is_space post"
proof -
  let ?a = "dropWhile is_space raw"
  have 1: "raw = takeWhile is_space raw @ ?a"
    by simp
  have 2: "rev ?a = takeWhile is_space (rev ?a) @ dropWhile is_space (rev ?a)"
    by simp
  have "?a = rev (rev ?a)" by simp
  also have "\<dots> = rev (dropWhile is_space (rev ?a)) @ rev (takeWhile is_space (rev ?a))"
    by (subst 2) (simp only: rev_append)
  finally have 3: "?a = strip raw @ rev (takeWhile is_space (rev ?a))"
    by (simp add: strip_def)
  have "raw = takeWhile is_space raw @ strip raw @ rev (takeWhile is_space (rev ?a))"
    using 1 3 by metis
  moreover have "list_all is_space (takeWhile is_space raw)"
    by (auto simp: list_all_iff dest: set_takeWhileD)
  moreover have "list_all is_space (rev (takeWhile is_space (rev ?a)))"
    by (auto simp: list_all_iff dest: set_takeWhileD)
  ultimately show ?thesis by blast
qed

lemma strip_ends:
  assumes ne: "strip raw \<noteq> []"
  shows "\<not> is_space (hd (strip raw)) \<and> \<not> is_space (last (strip raw))"
proof -
  let ?a = "dropWhile is_space raw"
  let ?b = "dropWhile is_space (rev ?a)"
  have b: "?b \<noteq> []"
    using ne by (simp add: strip_def)
  have "\<not> is_space (hd ?b)"
    using b by (rule hd_dropWhile)
  moreover have "last (strip raw) = hd ?b"
    using b by (simp add: strip_def last_rev)
  moreover have a: "?a \<noteq> []"
  proof
    assume "?a = []"
    then have "?b = []" by (simp only: rev.simps dropWhile.simps)
    with b show False by blast
  qed
  then have "\<not> is_space (hd ?a)"
    by (rule hd_dropWhile)
  moreover have "hd (strip raw) = hd ?a"
  proof -
    have "rev ?a = takeWhile is_space (rev ?a) @ ?b"
      by simp
    then have "last (rev ?a) = last ?b"
      using b by (metis last_appendR)
    then show ?thesis
      using a b by (simp add: strip_def hd_rev last_rev)
  qed
  ultimately show ?thesis
    by simp
qed

lemma clean_answer_filter:
  "clean_answer raw = filter (\<lambda>c. c \<noteq> CHR 0x22 \<and> c \<noteq> CHR 0x27 \<and> c \<noteq> CHR ''.'') (strip raw)"
  by (simp add: clean_answer_def remove_char_def conj_commute conj_left_commute)

lemma get_ai_extraction_fallback:
  "\<not> py_in ''age'' (lower query) \<or> calculate_smart_age current_year text = None
   \<Longrightarrow> get_ai_extraction llm current_year text query = llm_fallback llm current_year text query"
  by (auto simp: get_ai_extraction_def)

text \<open>
  What the fallback path of \<open>get_ai_extraction\<close> computes (the query does not contain
  "age" in lower case, or the year scan finds nothing): a call of the LLM capability
  that raises gives no answer; a raw response has the whitespace around it taken off
  and then every double quote, single quote and period removed by \<open>replace\<close>; a cleaned
  response that contains "None" or is longer than 50 characters gives no answer, any
  other is the answer. The capability is called once, with the prompt.
\<close>

lemma llm_fallback_outcomes:
  assumes "\<not> py_in ''age'' (lower query) \<or> calculate_smart_age current_year text = None"
  shows "(llm (build_prompt query text current_year) = None \<longrightarrow>
           get_ai_extraction llm current_year text query
             = (None, [build_prompt query text current_year]))
     \<and> (\<forall>raw. llm (build_prompt query text current_year) = Some raw \<longrightarrow>
           (\<exists>pre post. raw = pre @ strip raw @ post \<and> list_all is_space pre \<and> list_all is_space post)
         \<and> (strip raw \<noteq> [] \<longrightarrow> \<not> is_space (hd (strip raw)) \<and> \<not> is_space (last (strip raw)))
         \<and> clean_answer raw
             = filter (\<lambda>c. c \<noteq> CHR 0x22 \<and> c \<noteq> CHR 0x27 \<and> c \<noteq> CHR ''.'') (strip raw)
         \<and> ((\<exists>pre post. clean_answer raw = pre @ ''None'' @ post) \<or> 50 < length (clean_answer raw)
              \<longrightarrow> get_ai_extraction llm current_year text query
                    = (None, [build_prompt query text current_year]))
         \<and> (\<not> (\<exists>pre post. clean_answer raw = pre @ ''None'' @ post) \<and> length (clean_answer raw) \<le> 50
              \<longrightarrow> get_ai_extraction llm current_year text query
                    = (Some (clean_answer raw), [build_prompt query text current_year])))"
proof -
  have f: "get_ai_extraction llm current_year text query = llm_fallback llm current_year text query"
    using assms by (rule get_ai_extraction_fallback)
  have a: "llm (build_prompt query text current_year) = None \<longrightarrow>
           get_ai_extraction llm current_year text query
             = (None, [build_prompt query text current_year])"
    by (simp add: f llm_fallback_def)
  have b: "\<forall>raw. llm (build_prompt query text current_year) = Some raw \<longrightarrow>
           (\<exists>pre post. raw = pre @ strip raw @ post \<and> list_all is_space pre \<and> list_all is_space post)
         \<and> (strip raw \<noteq> [] \<longrightarrow> \<not> is_space (hd (strip raw)) \<and> \<not> is_space (last (strip raw)))
         \<and> clean_answer raw
             = filter (\<lambda>c. c \<noteq> CHR 0x22 \<and> c \<noteq> CHR 0x27 \<and> c \<noteq> CHR ''.'') (strip raw)
         \<and> ((\<exists>pre post. clean_answer raw = pre @ ''None'' @ post) \<or> 50 < length (clean_answer raw)
              \<longrightarrow> get_ai_extraction llm current_year text query
                    = (None, [build_prompt query text current_year]))
         \<and> (\<not> (\<exists>pre post. clean_answer raw = pre @ ''None'' @ post) \<and> length (clean_answer raw) \<le> 50
              \<longrightarrow> get_ai_extraction llm current_year text query
                    = (Some (clean_answer raw), [build_prompt query text current_year]))"
  proof (intro allI impI conjI)
    fix raw
    assume r: "llm (build_prompt query text current_year) = Some raw"
    show "\<exists>pre post. raw = pre @ strip raw @ post \<and> list_all is_space pre \<and> list_all is_space post"
      by (rule strip_decomp)
    show "\<not> is_space (hd (strip raw))" if "strip raw \<noteq> []"
      using that strip_ends by blast
    show "\<not> is_space (last (strip raw))" if "strip raw \<noteq> []"
      using that strip_ends by blast
    show "clean_answer raw
             = filter (\<lambda>c. c \<noteq> CHR 0x22 \<and> c \<noteq> CHR 0x27 \<and> c \<noteq> CHR ''.'') (strip raw)"
      by (rule clean_answer_filter)
    show "get_ai_extraction llm current_year text query
                    = (None, [build_prompt query text current_year])"
      if "(\<exists>pre post. clean_answer raw = pre @ ''None'' @ post) \<or> 50 < length (clean_answer raw)"
      using that r by (auto simp: f llm_fallback_def Let_def py_in_iff)
    show "get_ai_extraction llm current_year text query
                    = (Some (clean_answer raw), [build_prompt query text current_year])"
      if "\<not> (\<exists>pre post. clean_answer raw = pre @ ''None'' @ post) \<and> length (clean_answer raw) \<le> 50"
      using that r by (auto simp: f llm_fallback_def Let_def py_in_iff)
  qed
  from a b show ?thesis by blast
qed

text \<open>
  C8. The response is to be post-processed by stripping surrounding quotes, periods
  and whitespace. The code calls \<open>strip()\<close> and then \<open>replace\<close> on both quote
  characters and on the period, which removes them inside the response as well. The
  response \<open>3.5\<close> to the query "What is the CGPA?" has no quote, period or whitespace
  around it, is not the sentinel and is short, so the answer as specified is \<open>3.5\<close>;
  \<open>get_ai_extraction\<close> returns \<open>35\<close>. In the same way the response
  \<open>john.doe@mail.com\<close> is returned as \<open>johndoe@mailcom\<close>.
\<close>

theorem C8_inner_period_code_bug:
  "\<not> py_in ''age'' (lower ''What is the CGPA?'')
   \<and> spec_strip_surrounding ''3.5'' = ''3.5''
   \<and> \<not> py_in ''None'' (spec_strip_surrounding ''3.5'')
   \<and> length (spec_strip_surrounding ''3.5'') \<le> 50
   \<and> clean_answer ''3.5'' = ''35''
   \<and> fst (get_ai_extraction (\<lambda>prompt. Some ''3.5'') 2025 ''CGPA: 3.5'' ''What is the CGPA?'')
       = Some ''35''
   \<and> fst (get_ai_extraction (\<lambda>prompt. Some ''3.5'') 2025 ''CGPA: 3.5'' ''What is the CGPA?'')
       \<noteq> Some (spec_strip_surrounding ''3.5'')
   \<and> \<not> py_in ''age'' (lower ''What is the email?'')
   \<and> spec_strip_surrounding ''john.doe@mail.com'' = ''john.doe@mail.com''
   \<and> fst (get_ai_extraction (\<lambda>prompt. Some ''john.doe@mail.com'') 2025
            ''Email: john.doe@mail.com'' ''What is the email?'')
       = Some ''johndoe@mailcom''"
  by code_simp

lemma ex_not_age: "\<not> py_in ''age'' (lower ''What is the roll number?'')"
  by code_simp

lemma ex_clean: "clean_answer ([CHR 0x20, CHR 0x22] @ ''21'' @ [CHR 0x22] @ ''. '') = ''21''"
  by code_simp

lemma llm_fallback_outcomes_example:
  "\<not> py_in ''age'' (lower ''What is the roll number?'')
   \<and> get_ai_extraction (\<lambda>prompt. None) 2025 ''Roll no 21'' ''What is the roll number?''
       = (None, [build_prompt ''What is the roll number?'' ''Roll no 21'' 2025])
   \<and> clean_answer ([CHR 0x20, CHR 0x22] @ ''21'' @ [CHR 0x22] @ ''. '') = ''21''
   \<and> get_ai_extraction (\<lambda>prompt. Some ([CHR 0x20, CHR 0x22] @ ''21'' @ [CHR 0x22] @ ''. '')) 2025
         ''Roll no 21'' ''What is the roll number?''
       = (Some ''21'', [build_prompt ''What is the roll number?'' ''Roll no 21'' 2025])
   \<and> get_ai_extraction (\<lambda>prompt. Some ''None.'') 2025 ''Roll no 21'' ''What is the roll number?''
       = (None, [build_prompt ''What is the roll number?'' ''Roll no 21'' 2025])"
proof -
  have h: "\<not> py_in ''age'' (lower ''What is the roll number?'')
             \<or> calculate_smart_age 2025 ''Roll no 21'' = None"
    using ex_not_age by simp
  have n: "clean_answer ''None.'' = ''None''"
    by code_simp
  have 1: "get_ai_extraction (\<lambda>prompt. None) 2025 ''Roll no 21'' ''What is the roll number?''
       = (None, [build_prompt ''What is the roll number?'' ''Roll no 21'' 2025])"
    using llm_fallback_outcomes [OF h, of "\<lambda>prompt. None"] by simp
  have 2: "get_ai_extraction (\<lambda>prompt. Some ([CHR 0x20, CHR 0x22] @ ''21'' @ [CHR 0x22] @ ''. '')) 2025
         ''Roll no 21'' ''What is the roll number?''
       = (Some ''21'', [build_prompt ''What is the roll number?'' ''Roll no 21'' 2025])"
  proof -
    have "\<not> (\<exists>pre post. ''21'' = pre @ ''None'' @ post)"
      using py_in_iff [of "''None''" "''21''"] by simp
    then show ?thesis
      using llm_fallback_outcomes [OF h,
          of "\<lambda>prompt. Some ([CHR 0x20, CHR 0x22] @ ''21'' @ [CHR 0x22] @ ''. '')"] ex_clean
      by simp
  qed
  have 3: "get_ai_extraction (\<lambda>prompt. Some ''None.'') 2025 ''Roll no 21'' ''What is the roll number?''
       = (None, [build_prompt ''What is the roll number?'' ''Roll no 21'' 2025])"
  proof -
    have "\<exists>pre post. ''None'' = pre @ ''None'' @ post"
      using py_in_iff [of "''None''" "''None''"] by simp
    then show ?thesis
      using llm_fallback_outcomes [OF h, of "\<lambda>prompt. Some ''None.''"] n
      by simp
  qed
  from ex_not_age 1 2 3 ex_clean show ?thesis
    by simp
qed

section \<open>Answer extraction: the year scan\<close>

lemma rx_match_Atom:
  "rx_match ic (Atom c) s = (case s of [] \<Rightarrow> [] | x # xs \<Rightarrow> if cmatch ic c x then [xs] else [])"
  by (cases s) simp_all

lemma list4_cases:
  obtains "s = []" | a where "s = [a]" | a b where "s = [a, b]" | a b c where "s = [a, b, c]"
  | a b c d r where "s = a # b # c # d # r"
  by (metis list.exhaust)

lemma year_match:
  "rx_match False year_rx s = (if is_year_token (take 4 s) then [drop 4 s] else [])"
  by (cases s rule: list4_cases) (auto simp: year_rx_def word_def seq_def)

lemma is_year_token_length: "is_year_token w \<Longrightarrow> length w = 4"
  by (cases w rule: list4_cases) (auto elim: is_year_token.elims)

lemma findall_year_Nil [simp]: "re_findall False year_rx [] = []"
  by (subst re_findall.simps) (simp add: year_match)

lemma findall_year_Cons:
  "re_findall False year_rx (x # xs) =
     (if is_year_token (take 4 (x # xs))
      then take 4 (x # xs) # re_findall False year_rx (drop 4 (x # xs))
      else re_findall False year_rx xs)"
proof (cases "is_year_token (take 4 (x # xs))")
  case True
  then have "length (take 4 (x # xs)) = 4"
    by (rule is_year_token_length)
  then have l: "4 \<le> length (x # xs)"
    by (simp add: min_def split: if_splits)
  then have "length (x # xs) - length (drop 4 (x # xs)) = 4"
    by simp
  moreover have "length (drop 4 (x # xs)) < length (x # xs)"
    using l by simp
  ultimately show ?thesis
    using True by (subst re_findall.simps) (simp add: year_match del: drop_Suc_Cons take_Suc_Cons)
next
  case False
  then show ?thesis
    by (subst re_findall.simps) (simp add: year_match)
qed

lemma findall_year_windows:
  "w \<in> set (re_findall False year_rx s)
   \<Longrightarrow> is_year_token w \<and> (\<exists>i. i + 4 \<le> length s \<and> w = take 4 (drop i s))"
proof (induction s arbitrary: w rule: length_induct)
  case (1 s)
  show ?case
  proof (cases s)
    case Nil
    with "1.prems" show ?thesis by simp
  next
    case (Cons x xs)
    show ?thesis
    proof (cases "is_year_token (take 4 (x # xs))")
      case True
      then have l: "4 \<le> length (x # xs)"
        using is_year_token_length [of "take 4 (x # xs)"] by (simp add: min_def split: if_splits)
      from "1.prems" Cons True
      consider "w = take 4 (x # xs)" | "w \<in> set (re_findall False year_rx (drop 4 (x # xs)))"
        by (auto simp: findall_year_Cons simp del: drop_Suc_Cons take_Suc_Cons)
      then show ?thesis
      proof cases
        case 1
        then have "is_year_token w \<and> 0 + 4 \<le> length s \<and> w = take 4 (drop 0 s)"
          using True l Cons by simp
        then show ?thesis by blast
      next
        case 2
        have l': "4 \<le> length s"
          using l Cons by simp
        have "length (drop 4 s) < length s"
          using l' by simp
        moreover have "w \<in> set (re_findall False year_rx (drop 4 s))"
          using 2 Cons by simp
        ultimately obtain i where
          i: "is_year_token w" "i + 4 \<le> length (drop 4 s)" "w = take 4 (drop i (drop 4 s))"
          using "1.IH" by blast
        have "(i + 4) + 4 \<le> length s"
          using i(2) l' by simp
        moreover have "w = take 4 (drop (i + 4) s)"
          using i(3) by (simp only: drop_drop)
        ultimately show ?thesis
          using i(1) by blast
      qed
    next
      case False
      with "1.prems" Cons have "w \<in> set (re_findall False year_rx xs)"
        by (simp add: findall_year_Cons)
      moreover have "length xs < length s" using Cons by simp
      ultimately obtain i where
        i: "is_year_token w" "i + 4 \<le> length xs" "w = take 4 (drop i xs)"
        using "1.IH" by blast
      then have "Suc i + 4 \<le> length s \<and> w = take 4 (drop (Suc i) s)"
        using Cons by simp
      with i(1) show ?thesis by blast
    qed
  qed
qed

lemma is_digit_value: "is_digit c \<Longrightarrow> digit_val c < 10 \<and> digit_char (digit_val c) = c"
  by (auto simp: is_digit_def digit_val_def digit_char_def)

lemma is_digit_cases: "is_digit c \<Longrightarrow> \<exists>d < 10. c = digit_char d"
  using is_digit_value by metis

lemma digit_char_eq_iff: "a < 10 \<Longrightarrow> b < 10 \<Longrightarrow> digit_char a = digit_char b \<longleftrightarrow> a = b"
  by (metis digit_val_digit_char)

lemma digit_char_literals:
  "CHR ''0'' = digit_char 0" "CHR ''1'' = digit_char 1" "CHR ''2'' = digit_char 2"
  "CHR ''9'' = digit_char 9"
  by (simp_all add: digit_char_def)

lemma digits_value4:
  "a < 10 \<Longrightarrow> b < 10 \<Longrightarrow> c < 10 \<Longrightarrow> d < 10 \<Longrightarrow>
   digits_value [digit_char a, digit_char b, digit_char c, digit_char d]
     = 1000 * a + 100 * b + 10 * c + d"
  by (simp add: digits_value_def digit_val_digit_char)

lemma year_band_arith:
  fixes a b c d :: nat
  assumes "a < 10" "b < 10" "c < 10" "d < 10"
  shows "(a = 1 \<and> b = 9 \<and> c = 9) \<or> (a = 2 \<and> b = 0 \<and> c = 0) \<or> (a = 2 \<and> b = 0 \<and> c = 1)
     \<longleftrightarrow> 1990 \<le> 1000 * a + 100 * b + 10 * c + d \<and> 1000 * a + 100 * b + 10 * c + d \<le> 2019"
proof
  assume "(a = 1 \<and> b = 9 \<and> c = 9) \<or> (a = 2 \<and> b = 0 \<and> c = 0) \<or> (a = 2 \<and> b = 0 \<and> c = 1)"
  then show "1990 \<le> 1000 * a + 100 * b + 10 * c + d \<and> 1000 * a + 100 * b + 10 * c + d \<le> 2019"
    using assms(4) by auto
next
  assume r: "1990 \<le> 1000 * a + 100 * b + 10 * c + d \<and> 1000 * a + 100 * b + 10 * c + d \<le> 2019"
  then have "a = 1 \<or> a = 2"
    using assms by linarith
  then show "(a = 1 \<and> b = 9 \<and> c = 9) \<or> (a = 2 \<and> b = 0 \<and> c = 0) \<or> (a = 2 \<and> b = 0 \<and> c = 1)"
  proof
    assume a: "a = 1"
    with r assms have "b = 9" by linarith
    moreover from this a r assms have "c = 9" by linarith
    ultimately show ?thesis using a by simp
  next
    assume a: "a = 2"
    with r assms have b: "b = 0" by linarith
    with a r assms have "c = 0 \<or> c = 1" by linarith
    then show ?thesis using a b by auto
  qed
qed

lemma is_year_token_iff:
  "is_year_token w \<longleftrightarrow>
     length w = 4 \<and> list_all is_digit w \<and> 1990 \<le> digits_value w \<and> digits_value w \<le> 2019"
proof (cases "length w = 4 \<and> list_all is_digit w")
  case False
  then show ?thesis
    by (cases w rule: list4_cases) (auto simp: is_digit_def elim!: is_year_token.elims)
next
  case True
  then obtain x1 x2 x3 x4 where w: "w = [x1, x2, x3, x4]"
    by (cases w rule: list4_cases) auto
  with True have "is_digit x1" "is_digit x2" "is_digit x3" "is_digit x4"
    by simp_all
  then obtain a b c d where
    d: "a < 10" "b < 10" "c < 10" "d < 10"
       "x1 = digit_char a" "x2 = digit_char b" "x3 = digit_char c" "x4 = digit_char d"
    using is_digit_cases [of x1] is_digit_cases [of x2] is_digit_cases [of x3]
      is_digit_cases [of x4] by blast
  have v: "digits_value w = 1000 * a + 100 * b + 10 * c + d"
    using d by (simp add: w digits_value4)
  have "is_year_token w \<longleftrightarrow> (a = 1 \<and> b = 9 \<and> c = 9) \<or> (a = 2 \<and> b = 0 \<and> c = 0) \<or> (a = 2 \<and> b = 0 \<and> c = 1)"
    using d by (simp add: w digit_char_literals digit_char_eq_iff is_digit_digit_char)
  also have "\<dots> \<longleftrightarrow> 1990 \<le> digits_value w \<and> digits_value w \<le> 2019"
    unfolding v using d(1-4) by (rule year_band_arith)
  finally show ?thesis
    using True by simp
qed

lemma py_int_year: "is_year_token w \<Longrightarrow> py_int w = Inr (int (digits_value w))"
  by (auto simp: py_int_def is_year_token_iff)

lemma possible_ages_years:
  "list_all is_year_token ms \<Longrightarrow>
   possible_ages current_year ms
     = Inr (map (\<lambda>y. current_year - y)
              (filter (\<lambda>y. 1980 < y \<and> y < current_year - 15) (map (\<lambda>w. int (digits_value w)) ms)))"
  by (induction ms) (simp_all add: py_int_year)

lemma findall_year_tokens: "list_all is_year_token (re_findall False year_rx s)"
  using findall_year_windows by (auto simp: list_all_iff)

lemma py_max_Max: "xs \<noteq> [] \<Longrightarrow> py_max xs = Max (set xs)"
proof (cases xs)
  case Nil
  assume "xs \<noteq> []"
  with Nil show ?thesis by simp
next
  case (Cons x ys)
  have "foldl max x ys = fold max ys x"
    by (simp add: foldl_conv_fold max.commute)
  then show ?thesis
    using Cons Max.set_eq_fold [of x ys] by (simp add: py_max_def)
qed

lemma calculate_smart_age_eq:
  "calculate_smart_age current_year text =
     (if qualifying_years current_year text = [] then None
      else Some (str_int (Max (set (map (\<lambda>y. current_year - y) (qualifying_years current_year text))))))"
  by (simp add: calculate_smart_age_def possible_ages_years findall_year_tokens
        qualifying_years_def py_max_Max)

lemma str_nat_nonempty: "str_nat n \<noteq> []"
  by (subst str_nat.simps) simp

lemma str_int_nonempty: "str_int i \<noteq> []"
  by (simp add: str_int_def str_nat_nonempty)


lemma year_token_append:
  assumes "rest = [] \<or> \<not> is_digit (hd rest)"
  shows "is_year_token (take 4 (pre @ rest)) \<longleftrightarrow> is_year_token (take 4 pre)"
proof (cases "4 \<le> length pre")
  case True
  then show ?thesis by simp
next
  case False
  then have r: "\<not> is_year_token (take 4 pre)"
    using is_year_token_length [of "take 4 pre"] by auto
  have "\<not> is_year_token (take 4 (pre @ rest))"
  proof (cases rest)
    case Nil
    with r show ?thesis by simp
  next
    case (Cons c cs)
    with assms have c: "\<not> is_digit c" by simp
    have "c \<in> set (take 4 (pre @ rest))"
      using False Cons by (simp add: take_Cons')
    then have "\<not> list_all is_digit (take 4 (pre @ rest))"
      using c by (auto simp: list_all_iff)
    then show ?thesis
      using is_year_token_iff [of "take 4 (pre @ rest)"] by blast
  qed
  with r show ?thesis by simp
qed

lemma findall_year_append:
  "rest = [] \<or> \<not> is_digit (hd rest) \<Longrightarrow>
   re_findall False year_rx (pre @ rest) = re_findall False year_rx pre @ re_findall False year_rx rest"
proof (induction pre rule: length_induct)
  case (1 pre)
  show ?case
  proof (cases pre)
    case Nil
    then show ?thesis by simp
  next
    case (Cons x xs)
    have tok: "is_year_token (take 4 (pre @ rest)) \<longleftrightarrow> is_year_token (take 4 pre)"
      using "1.prems" by (rule year_token_append)
    show ?thesis
    proof (cases "is_year_token (take 4 pre)")
      case True
      then have l: "4 \<le> length pre"
        using is_year_token_length [of "take 4 pre"] by (simp add: min_def split: if_splits)
      have a: "re_findall False year_rx (pre @ rest)
                 = take 4 pre # re_findall False year_rx (drop 4 pre @ rest)"
        using True tok l findall_year_Cons [of x "xs @ rest"] Cons
        by (simp del: take_Suc_Cons drop_Suc_Cons)
      have b: "re_findall False year_rx pre = take 4 pre # re_findall False year_rx (drop 4 pre)"
        using True findall_year_Cons [of x xs] Cons by simp
      have "length (drop 4 pre) < length pre"
        using l by simp
      then have "re_findall False year_rx (drop 4 pre @ rest)
                   = re_findall False year_rx (drop 4 pre) @ re_findall False year_rx rest"
        using "1.IH" "1.prems" by blast
      with a b show ?thesis by simp
    next
      case False
      then have a: "re_findall False year_rx (pre @ rest) = re_findall False year_rx (xs @ rest)"
        using tok findall_year_Cons [of x "xs @ rest"] Cons by simp
      have b: "re_findall False year_rx pre = re_findall False year_rx xs"
        using False findall_year_Cons [of x xs] Cons by simp
      have "length xs < length pre" using Cons by simp
      then have "re_findall False year_rx (xs @ rest)
                   = re_findall False year_rx xs @ re_findall False year_rx rest"
        using "1.IH" "1.prems" by blast
      with a b show ?thesis by simp
    qed
  qed
qed

lemma findall_john:
  "re_findall False year_rx (''john.1999@mail.com'' @ post)
     = ''1999'' # re_findall False year_rx (''@mail.com'' @ post)"
  by (simp add: findall_year_Cons is_digit_def)

lemma john_found: "''1999'' \<in> set (re_findall False year_rx (pre @ ''john.1999@mail.com'' @ post))"
proof -
  have "\<not> is_digit (hd (''john.1999@mail.com'' @ post))"
    by (simp add: is_digit_def)
  then have "re_findall False year_rx (pre @ ''john.1999@mail.com'' @ post)
      = re_findall False year_rx pre @ re_findall False year_rx (''john.1999@mail.com'' @ post)"
    by (intro findall_year_append) simp
  then show ?thesis
    by (simp only: findall_john) simp
qed

lemma digits_value_1999: "digits_value ''1999'' = 1999"
  by (simp add: digits_value_def digit_val_def)

lemma str_int_26: "str_int 26 = ''26''"
  by (simp add: str_int_def str_nat.simps digit_char_def)

lemma get_ai_extraction_age:
  assumes "py_in ''age'' (lower query)" and "qualifying_years current_year text \<noteq> []"
  shows "get_ai_extraction llm current_year text query
           = (Some (str_int (Max (set (map (\<lambda>y. current_year - y)
                                         (qualifying_years current_year text))))), [])"
  using assms by (simp add: get_ai_extraction_def calculate_smart_age_eq str_int_nonempty)

text \<open>
  C5 (as amended). For every chunk text and every query whose lower-cased form contains
  "age": if the year scan finds at least one match that passes the band test, the
  extractor returns the string of the maximum of \<open>current_year - year\<close> over these
  matches, and the LLM capability is not called (no prompt is sent). In particular, for
  a text that contains "john.1999@mail.com" and in which no such match is a year before
  1999, with current year 2025 it returns "26".
\<close>

theorem C5_age_scan:
  assumes "py_in ''age'' (lower query)"
  shows "(qualifying_years current_year text \<noteq> [] \<longrightarrow>
            get_ai_extraction llm current_year text query
              = (Some (str_int (Max (set (map (\<lambda>y. current_year - y)
                                            (qualifying_years current_year text))))), []))
     \<and> (\<forall>pre post. text = pre @ ''john.1999@mail.com'' @ post
            \<and> (\<forall>y \<in> set (qualifying_years 2025 text). 1999 \<le> y)
          \<longrightarrow> get_ai_extraction llm 2025 text query = (Some ''26'', []))"
proof -
  have a: "qualifying_years current_year text \<noteq> [] \<longrightarrow>
            get_ai_extraction llm current_year text query
              = (Some (str_int (Max (set (map (\<lambda>y. current_year - y)
                                            (qualifying_years current_year text))))), [])"
    using assms get_ai_extraction_age by blast
  have b: "\<forall>pre post. text = pre @ ''john.1999@mail.com'' @ post
            \<and> (\<forall>y \<in> set (qualifying_years 2025 text). 1999 \<le> y)
          \<longrightarrow> get_ai_extraction llm 2025 text query = (Some ''26'', [])"
  proof (intro allI impI)
    fix pre post
    assume h: "text = pre @ ''john.1999@mail.com'' @ post
            \<and> (\<forall>y \<in> set (qualifying_years 2025 text). 1999 \<le> y)"
    let ?q = "qualifying_years 2025 text"
    have m: "1999 \<in> set ?q"
      using h john_found [of pre post]
      by (auto simp: qualifying_years_def image_iff digits_value_1999 intro!: bexI [of _ "''1999''"])
    then have ne: "?q \<noteq> []" by auto
    have "Max (set (map (\<lambda>y. 2025 - y) ?q)) = 26"
    proof (rule Max_eqI)
      show "finite (set (map (\<lambda>y. 2025 - y) ?q))" by simp
      show "26 \<in> set (map (\<lambda>y. 2025 - y) ?q)"
        using m by force
      show "\<And>z. z \<in> set (map (\<lambda>y. 2025 - y) ?q) \<Longrightarrow> z \<le> 26"
        using h by auto
    qed
    then show "get_ai_extraction llm 2025 text query = (Some ''26'', [])"
      using get_ai_extraction_age [OF assms ne, of llm] by (simp add: str_int_26)
  qed
  from a b show ?thesis by blast
qed

text \<open>
  The claim C5 as stated returns "26" for every text that contains
  "john.1999@mail.com". The text below contains it, and the answer is "30": the scan
  also finds 1995, and the maximum wins.
\<close>

theorem C5_john_1999_counterexample:
  "py_in ''age'' (lower ''What is the age?'')
   \<and> py_in ''john.1999@mail.com'' ''Born 1995. john.1999@mail.com''
   \<and> get_ai_extraction (\<lambda>prompt. None) 2025 ''Born 1995. john.1999@mail.com'' ''What is the age?''
       = (Some ''30'', [])
   \<and> fst (get_ai_extraction (\<lambda>prompt. None) 2025 ''Born 1995. john.1999@mail.com'' ''What is the age?'')
       \<noteq> Some ''26''"
  by code_simp

lemma ex_age_query: "py_in ''age'' (lower ''What is his Age?'')"
  by code_simp

lemma ex_john_years: "qualifying_years 2025 ''Contact: john.1999@mail.com'' = [1999]"
  by code_simp

lemma ex_two_years: "qualifying_years 2025 ''Born 1995, enrolled 2001, graduated 2015'' = [1995, 2001]"
  by code_simp

theorem C5_age_scan_witness:
  "py_in ''age'' (lower ''What is his Age?'')
   \<and> qualifying_years 2025 ''Born 1995, enrolled 2001, graduated 2015'' = [1995, 2001]
   \<and> get_ai_extraction (\<lambda>prompt. None) 2025 ''Born 1995, enrolled 2001, graduated 2015''
         ''What is his Age?'' = (Some ''30'', [])
   \<and> ''Contact: john.1999@mail.com'' = ''Contact: '' @ ''john.1999@mail.com'' @ []
   \<and> qualifying_years 2025 ''Contact: john.1999@mail.com'' = [1999]
   \<and> get_ai_extraction (\<lambda>prompt. None) 2025 ''Contact: john.1999@mail.com'' ''What is his Age?''
       = (Some ''26'', [])"
proof -
  have s30: "str_int 30 = ''30''"
    by (simp add: str_int_def str_nat.simps digit_char_def)
  have 1: "get_ai_extraction (\<lambda>prompt. None) 2025 ''Born 1995, enrolled 2001, graduated 2015''
         ''What is his Age?'' = (Some ''30'', [])"
    using C5_age_scan [of "''What is his Age?''" 2025 "''Born 1995, enrolled 2001, graduated 2015''"
        "\<lambda>prompt. None", OF ex_age_query]
    by (simp add: ex_two_years s30)
  have "\<forall>pre post. ''Contact: john.1999@mail.com'' = pre @ ''john.1999@mail.com'' @ post
            \<and> (\<forall>y \<in> set (qualifying_years 2025 ''Contact: john.1999@mail.com''). 1999 \<le> y)
          \<longrightarrow> get_ai_extraction (\<lambda>prompt. None) 2025 ''Contact: john.1999@mail.com'' ''What is his Age?''
                = (Some ''26'', [])"
    using C5_age_scan [of "''What is his Age?''" 2025 "''Contact: john.1999@mail.com''"
        "\<lambda>prompt. None", OF ex_age_query]
    by (rule conjunct2)
  then have "''Contact: john.1999@mail.com'' = ''Contact: '' @ ''john.1999@mail.com'' @ []
            \<and> (\<forall>y \<in> set (qualifying_years 2025 ''Contact: john.1999@mail.com''). 1999 \<le> y)
          \<longrightarrow> get_ai_extraction (\<lambda>prompt. None) 2025 ''Contact: john.1999@mail.com'' ''What is his Age?''
                = (Some ''26'', [])"
    by blast
  then have 2: "get_ai_extraction (\<lambda>prompt. None) 2025 ''Contact: john.1999@mail.com'' ''What is his Age?''
                = (Some ''26'', [])"
    by (simp add: ex_john_years)
  from ex_age_query ex_two_years ex_john_years 1 2 show ?thesis
    by simp
qed






section \<open>Date extraction\<close>

lemma lower_char_slash: "lower_char x = CHR ''/'' \<longleftrightarrow> x = CHR ''/''"
proof (cases "(65 \<le> (of_char x :: nat) \<and> (of_char x :: nat) \<le> 90)
              \<or> (192 \<le> (of_char x :: nat) \<and> (of_char x :: nat) \<le> 222 \<and> (of_char x :: nat) \<noteq> 215)")
  case False
  then have "lower_char x = x"
    unfolding lower_char_def Let_def by (simp only: if_False)
  then show ?thesis by simp
next
  case True
  then have l: "lower_char x = char_of ((of_char x :: nat) + 32)"
    by (simp add: lower_char_def Let_def)
  have "(of_char (lower_char x) :: nat) = ((of_char x :: nat) + 32) mod 256"
    unfolding l by (rule of_char_of)
  also have "\<dots> = (of_char x :: nat) + 32"
    using True by auto
  finally have "(of_char (lower_char x) :: nat) \<noteq> of_char (CHR ''/'')"
    using True by auto
  then have "lower_char x \<noteq> CHR ''/''"
    by metis
  moreover have "x \<noteq> CHR ''/''"
    using True by auto
  ultimately show ?thesis by simp
qed

lemma lower_char_eq_slash: "lower_char x = lower_char (CHR ''/'') \<longleftrightarrow> x = CHR ''/''"
  using lower_char_slash [of x] lower_char_slash [of "CHR ''/''"] by simp

lemma times_2: "times 2 c = Seq (Atom c) (Seq (Atom c) Eps)"
  by (simp add: times_def seq_def numeral_2_eq_2)

lemma times_4: "times 4 c = Seq (Atom c) (Seq (Atom c) (Seq (Atom c) (Seq (Atom c) Eps)))"
  by (simp add: times_def seq_def eval_nat_numeral)

lemma rx_match_Atom_Seq:
  "rx_match ic (Seq (Atom c) r) s =
     (case s of [] \<Rightarrow> [] | x # xs \<Rightarrow> if cmatch ic c x then rx_match ic r xs else [])"
  by (cases s) simp_all

lemma concat_map_concat:
  "concat (map f (concat xss)) = concat (map (\<lambda>xs. concat (map f xs)) xss)"
  by (induction xss) simp_all

lemma rx_match_Seq_Seq: "rx_match ic (Seq (Seq a b) c) s = rx_match ic (Seq a (Seq b c)) s"
proof -
  have "rx_match ic (Seq b c) = (\<lambda>x. concat (map (rx_match ic c) (rx_match ic b x)))"
    by (rule ext) simp
  then show ?thesis
    by (simp add: concat_map_concat comp_def)
qed

lemma rx_match_Seq_Eps: "rx_match ic (Seq Eps a) s = rx_match ic a s"
  by simp

lemma dmy_match: "rx_match True pat_dmy s = (if dmy_at s then [drop 10 s] else [])"
  unfolding pat_dmy_def seq_def times_2 times_4
  by (cases s rule: dmy_at.cases)
     (simp_all add: rx_match_Seq_Seq rx_match_Seq_Eps rx_match_Atom_Seq lower_char_eq_slash
        del: rx_match.simps(4))

lemma rx_match_suffix: "rest \<in> set (rx_match ic r s) \<Longrightarrow> \<exists>m. s = m @ rest"
proof (induction ic r s arbitrary: rest rule: rx_match.induct)
  case (4 ic a b s)
  then obtain mid where mid: "mid \<in> set (rx_match ic a s)" and r: "rest \<in> set (rx_match ic b mid)"
    by auto
  from "4.IH"(1) [OF mid] obtain m1 where "s = m1 @ mid" by blast
  moreover from "4.IH"(2) [OF mid r] obtain m2 where "mid = m2 @ rest" by blast
  ultimately have "s = (m1 @ m2) @ rest" by simp
  then show ?case by blast
next
  case (8 ic c x xs)
  show ?case
  proof (cases "rest = x # xs")
    case True
    then show ?thesis by simp
  next
    case False
    with "8.prems" have c: "cmatch ic c x" and "rest \<in> set (rx_match ic (Star c) xs)"
      by (auto split: if_splits)
    with "8.IH" obtain m where "xs = m @ rest" by blast
    then have "x # xs = (x # m) @ rest" by simp
    then show ?thesis by blast
  qed
qed (auto split: if_splits)

lemma re_search_leftmost:
  "re_search ic r s = Some d \<Longrightarrow>
   \<exists>pre post. s = pre @ d @ post \<and> post \<in> set (rx_match ic r (d @ post))
      \<and> (\<forall>k < length pre. rx_match ic r (drop k s) = [])"
proof (induction s)
  case Nil
  then obtain rest rs where m: "rx_match ic r [] = rest # rs" and d: "d = []"
    by (auto split: list.splits)
  then have "rest \<in> set (rx_match ic r [])" by simp
  then have "rest = []" using rx_match_suffix by fastforce
  with m d have "[] = [] @ d @ [] \<and> [] \<in> set (rx_match ic r (d @ []))
      \<and> (\<forall>k < length ([] :: string). rx_match ic r (drop k []) = [])"
    by simp
  then show ?case by blast
next
  case (Cons x xs)
  show ?case
  proof (cases "rx_match ic r (x # xs)")
    case Nil
    with Cons.prems have "re_search ic r xs = Some d" by simp
    with Cons.IH obtain pre post where
      p: "xs = pre @ d @ post" "post \<in> set (rx_match ic r (d @ post))"
         "\<forall>k < length pre. rx_match ic r (drop k xs) = []"
      by blast
    have "\<forall>k < length (x # pre). rx_match ic r (drop k (x # xs)) = []"
    proof (intro allI impI)
      fix k
      assume "k < length (x # pre)"
      then show "rx_match ic r (drop k (x # xs)) = []"
        using Nil p(3) by (cases k) auto
    qed
    moreover have "x # xs = (x # pre) @ d @ post"
      using p(1) by simp
    ultimately show ?thesis
      using p(2) by blast
  next
    case (Cons rest rs)
    then have "rest \<in> set (rx_match ic r (x # xs))" by simp
    then obtain m where m: "x # xs = m @ rest"
      using rx_match_suffix by blast
    then have "length (x # xs) - length rest = length m"
      by (metis add_diff_cancel_right' length_append)
    then have "take (length (x # xs) - length rest) (x # xs) = m"
      using m by (metis append_eq_conv_conj)
    with Cons.prems Cons have d: "d = m"
      by simp
    have "x # xs = [] @ d @ rest \<and> rest \<in> set (rx_match ic r (d @ rest))
        \<and> (\<forall>k < length ([] :: string). rx_match ic r (drop k (x # xs)) = [])"
      using m d Cons by simp
    then show ?thesis by blast
  qed
qed

lemma dmy_at_length: "dmy_at s \<Longrightarrow> 10 \<le> length s"
  by (cases s rule: dmy_at.cases) simp_all

lemma re_search_dmy_here: "dmy_at s \<Longrightarrow> re_search True pat_dmy s = Some (take 10 s)"
proof -
  assume d: "dmy_at s"
  then have l: "10 \<le> length s" by (rule dmy_at_length)
  then obtain x xs where s: "s = x # xs" by (cases s) auto
  have "length s - length (drop 10 s) = 10"
    using l by simp
  then show ?thesis
    using d unfolding s by (simp add: dmy_match del: drop_Suc_Cons take_Suc_Cons dmy_at.simps)
qed

lemma re_search_dmy_first:
  "\<forall>k < length pre. \<not> dmy_at (drop k (pre @ rest)) \<Longrightarrow> dmy_at rest
   \<Longrightarrow> re_search True pat_dmy (pre @ rest) = Some (take 10 rest)"
proof (induction pre)
  case Nil
  then show ?case by (simp add: re_search_dmy_here)
next
  case (Cons x pre)
  have "\<not> dmy_at (x # pre @ rest)"
    using Cons.prems(1) by force
  then have "re_search True pat_dmy ((x # pre) @ rest) = re_search True pat_dmy (pre @ rest)"
    by (simp add: dmy_match)
  moreover have "\<forall>k < length pre. \<not> dmy_at (drop k (pre @ rest))"
  proof (intro allI impI)
    fix k
    assume "k < length pre"
    then have "Suc k < length (x # pre)" by simp
    with Cons.prems(1) have "\<not> dmy_at (drop (Suc k) ((x # pre) @ rest))" by blast
    then show "\<not> dmy_at (drop k (pre @ rest))" by simp
  qed
  ultimately show ?case
    using Cons.IH Cons.prems(2) by simp
qed

lemma first_match_Some_iff:
  "first_match ps T = Some d \<longleftrightarrow>
     (\<exists>i < length ps. (\<forall>j < i. re_search True (ps ! j) T = None) \<and> re_search True (ps ! i) T = Some d)"
proof (induction ps)
  case Nil
  then show ?case by simp
next
  case (Cons p ps)
  show ?case
  proof (cases "re_search True p T")
    case (Some m)
    show ?thesis
    proof
      assume "first_match (p # ps) T = Some d"
      with Some have "re_search True ((p # ps) ! 0) T = Some d" by simp
      then show "\<exists>i < length (p # ps). (\<forall>j < i. re_search True ((p # ps) ! j) T = None)
                   \<and> re_search True ((p # ps) ! i) T = Some d"
        by (intro exI [of _ 0]) simp
    next
      assume "\<exists>i < length (p # ps). (\<forall>j < i. re_search True ((p # ps) ! j) T = None)
                   \<and> re_search True ((p # ps) ! i) T = Some d"
      then obtain i where i: "i < length (p # ps)" "\<forall>j < i. re_search True ((p # ps) ! j) T = None"
          "re_search True ((p # ps) ! i) T = Some d"
        by blast
      have "i = 0"
      proof (rule ccontr)
        assume "i \<noteq> 0"
        then have "0 < i" by simp
        with i(2) have "re_search True ((p # ps) ! 0) T = None" by blast
        with Some show False by simp
      qed
      with i(3) Some show "first_match (p # ps) T = Some d" by simp
    qed
  next
    case None
    have "(\<exists>i < length (p # ps). (\<forall>j < i. re_search True ((p # ps) ! j) T = None)
                   \<and> re_search True ((p # ps) ! i) T = Some d)
        \<longleftrightarrow> (\<exists>i < length ps. (\<forall>j < i. re_search True (ps ! j) T = None)
                   \<and> re_search True (ps ! i) T = Some d)"
    proof
      assume "\<exists>i < length (p # ps). (\<forall>j < i. re_search True ((p # ps) ! j) T = None)
                   \<and> re_search True ((p # ps) ! i) T = Some d"
      then obtain i where i: "i < length (p # ps)" "\<forall>j < i. re_search True ((p # ps) ! j) T = None"
          "re_search True ((p # ps) ! i) T = Some d"
        by blast
      with None obtain i' where i': "i = Suc i'"
        by (cases i) auto
      have "\<forall>j < i'. re_search True (ps ! j) T = None"
      proof (intro allI impI)
        fix j assume "j < i'"
        then have "Suc j < i" using i' by simp
        with i(2) have "re_search True ((p # ps) ! Suc j) T = None" by blast
        then show "re_search True (ps ! j) T = None" by simp
      qed
      with i i' show "\<exists>i < length ps. (\<forall>j < i. re_search True (ps ! j) T = None)
                   \<and> re_search True (ps ! i) T = Some d"
        by (intro exI [of _ i']) simp
    next
      assume "\<exists>i < length ps. (\<forall>j < i. re_search True (ps ! j) T = None)
                   \<and> re_search True (ps ! i) T = Some d"
      then obtain i where i: "i < length ps" "\<forall>j < i. re_search True (ps ! j) T = None"
          "re_search True (ps ! i) T = Some d"
        by blast
      have "\<forall>j < Suc i. re_search True ((p # ps) ! j) T = None"
      proof (intro allI impI)
        fix j assume "j < Suc i"
        then show "re_search True ((p # ps) ! j) T = None"
          using None i(2) by (cases j) auto
      qed
      with i show "\<exists>i < length (p # ps). (\<forall>j < i. re_search True ((p # ps) ! j) T = None)
                   \<and> re_search True ((p # ps) ! i) T = Some d"
        by (intro exI [of _ "Suc i"]) simp
    qed
    with None Cons.IH show ?thesis by simp
  qed
qed

lemma first_match_None_iff:
  "first_match ps T = None \<longleftrightarrow> (\<forall>p \<in> set ps. re_search True p T = None)"
  by (induction ps) (auto split: option.splits)

lemma dmy_first_wins:
  assumes "re_search True pat_dmy T = Some d"
  shows "extract_date_from_text today T = d \<and> backend_extract_date_from_text today T = d"
  using assms
  by (simp add: extract_date_from_text_def backend_extract_date_from_text_def patterns_def
        backend_patterns_def)

text \<open>
  C6 (as amended). Date extraction tries its patterns in order, DD/MM/YYYY first, then
  YYYY-MM-DD, then the textual month forms, in app.py and in backend\_main.py. The first
  pattern in the list that matches anywhere in the text gives the result, and the
  result is that pattern's leftmost match. When no pattern matches, the result is the
  current date. For a text that contains "15/03/2024", with no DD/MM/YYYY date starting
  before it, the result is "15/03/2024", whatever else the text holds ("March 20, 2024"
  before or after it, for one).
\<close>

theorem C6_date_priority:
  "patterns = [pat_dmy, pat_ymd, pat_month_day_year]
   \<and> backend_patterns = [pat_dmy, pat_ymd, pat_day_month_year, pat_month_day_year]
   \<and> (\<forall>s. rx_match True pat_dmy s = (if dmy_at s then [drop 10 s] else []))
   \<and> (\<forall>i d. i < length patterns \<and> (\<forall>j < i. re_search True (patterns ! j) T = None)
          \<and> re_search True (patterns ! i) T = Some d
        \<longrightarrow> extract_date_from_text today T = d)
   \<and> (\<forall>i d. i < length backend_patterns \<and> (\<forall>j < i. re_search True (backend_patterns ! j) T = None)
          \<and> re_search True (backend_patterns ! i) T = Some d
        \<longrightarrow> backend_extract_date_from_text today T = d)
   \<and> (\<forall>p d. re_search True p T = Some d
        \<longrightarrow> (\<exists>pre post. T = pre @ d @ post \<and> post \<in> set (rx_match True p (d @ post))
              \<and> (\<forall>k < length pre. rx_match True p (drop k T) = [])))
   \<and> ((\<forall>p \<in> set patterns. re_search True p T = None) \<longrightarrow> extract_date_from_text today T = today)
   \<and> ((\<forall>p \<in> set backend_patterns. re_search True p T = None)
        \<longrightarrow> backend_extract_date_from_text today T = today)
   \<and> (\<forall>pre post. T = pre @ ''15/03/2024'' @ post \<and> (\<forall>k < length pre. \<not> dmy_at (drop k T))
        \<longrightarrow> extract_date_from_text today T = ''15/03/2024''
          \<and> backend_extract_date_from_text today T = ''15/03/2024'')"
proof -
  have a: "patterns = [pat_dmy, pat_ymd, pat_month_day_year]
     \<and> backend_patterns = [pat_dmy, pat_ymd, pat_day_month_year, pat_month_day_year]"
    by (simp add: patterns_def backend_patterns_def)
  have b: "\<forall>s. rx_match True pat_dmy s = (if dmy_at s then [drop 10 s] else [])"
    using dmy_match by blast
  have c: "\<forall>i d. i < length patterns \<and> (\<forall>j < i. re_search True (patterns ! j) T = None)
          \<and> re_search True (patterns ! i) T = Some d
        \<longrightarrow> extract_date_from_text today T = d"
  proof (intro allI impI)
    fix i d
    assume "i < length patterns \<and> (\<forall>j < i. re_search True (patterns ! j) T = None)
          \<and> re_search True (patterns ! i) T = Some d"
    then have "first_match patterns T = Some d"
      unfolding first_match_Some_iff by blast
    then show "extract_date_from_text today T = d"
      by (simp add: extract_date_from_text_def)
  qed
  have c': "\<forall>i d. i < length backend_patterns
          \<and> (\<forall>j < i. re_search True (backend_patterns ! j) T = None)
          \<and> re_search True (backend_patterns ! i) T = Some d
        \<longrightarrow> backend_extract_date_from_text today T = d"
  proof (intro allI impI)
    fix i d
    assume "i < length backend_patterns \<and> (\<forall>j < i. re_search True (backend_patterns ! j) T = None)
          \<and> re_search True (backend_patterns ! i) T = Some d"
    then have "first_match backend_patterns T = Some d"
      unfolding first_match_Some_iff by blast
    then show "backend_extract_date_from_text today T = d"
      by (simp add: backend_extract_date_from_text_def)
  qed
  have d: "\<forall>p d. re_search True p T = Some d
        \<longrightarrow> (\<exists>pre post. T = pre @ d @ post \<and> post \<in> set (rx_match True p (d @ post))
              \<and> (\<forall>k < length pre. rx_match True p (drop k T) = []))"
    using re_search_leftmost by blast
  have e: "(\<forall>p \<in> set patterns. re_search True p T = None) \<longrightarrow> extract_date_from_text today T = today"
    by (simp add: extract_date_from_text_def first_match_None_iff [symmetric])
  have e': "(\<forall>p \<in> set backend_patterns. re_search True p T = None)
        \<longrightarrow> backend_extract_date_from_text today T = today"
    by (simp add: backend_extract_date_from_text_def first_match_None_iff [symmetric])
  have f: "\<forall>pre post. T = pre @ ''15/03/2024'' @ post \<and> (\<forall>k < length pre. \<not> dmy_at (drop k T))
        \<longrightarrow> extract_date_from_text today T = ''15/03/2024''
          \<and> backend_extract_date_from_text today T = ''15/03/2024''"
  proof (intro allI impI)
    fix pre post
    assume h: "T = pre @ ''15/03/2024'' @ post \<and> (\<forall>k < length pre. \<not> dmy_at (drop k T))"
    have "dmy_at (''15/03/2024'' @ post)"
      by (simp add: is_digit_def)
    moreover have "\<forall>k < length pre. \<not> dmy_at (drop k (pre @ ''15/03/2024'' @ post))"
      using h by blast
    ultimately have "re_search True pat_dmy (pre @ ''15/03/2024'' @ post)
                       = Some (take 10 (''15/03/2024'' @ post))"
      by (intro re_search_dmy_first)
    then have "re_search True pat_dmy T = Some ''15/03/2024''"
      using h by simp
    then show "extract_date_from_text today T = ''15/03/2024''
          \<and> backend_extract_date_from_text today T = ''15/03/2024''"
      by (rule dmy_first_wins)
  qed
  from a b c c' d e e' f show ?thesis
    by blast
qed

text \<open>
  The claim C6 as stated returns "15/03/2024" for every text that contains both
  "15/03/2024" and "March 20, 2024". The text below contains both, and the result is
  "01/01/2000": the leftmost DD/MM/YYYY match wins.
\<close>

theorem C6_earlier_date_counterexample:
  "py_in ''15/03/2024'' ''Issued 01/01/2000. Exam 15/03/2024, results March 20, 2024''
   \<and> py_in ''March 20, 2024'' ''Issued 01/01/2000. Exam 15/03/2024, results March 20, 2024''
   \<and> extract_date_from_text ''2026-11-03''
        ''Issued 01/01/2000. Exam 15/03/2024, results March 20, 2024'' = ''01/01/2000''
   \<and> extract_date_from_text ''2026-11-03''
        ''Issued 01/01/2000. Exam 15/03/2024, results March 20, 2024'' \<noteq> ''15/03/2024''
   \<and> backend_extract_date_from_text ''2026-11-03''
        ''Issued 01/01/2000. Exam 15/03/2024, results March 20, 2024'' \<noteq> ''15/03/2024''"
  by code_simp

lemma all_less_list: "(\<forall>k < n. P k) \<longleftrightarrow> list_all P [0..<n]"
  by (auto simp: list_all_iff)

lemma ex_no_earlier_dmy:
  "\<forall>k < length ''Results on March 20, 2024. Exam on ''.
      \<not> dmy_at (drop k (''Results on March 20, 2024. Exam on '' @ ''15/03/2024'' @ '' at 9am''))"
  unfolding all_less_list by (simp add: upt_rec is_digit_def)

lemma ex_no_date:
  "\<forall>p \<in> set patterns. re_search True p ''No date here'' = None"
proof -
  have "list_all (\<lambda>p. re_search True p ''No date here'' = None) patterns"
    by code_simp
  then show ?thesis by (simp add: list_all_iff)
qed

lemma ex_no_date_backend:
  "\<forall>p \<in> set backend_patterns. re_search True p ''No date here'' = None"
proof -
  have "list_all (\<lambda>p. re_search True p ''No date here'' = None) backend_patterns"
    by code_simp
  then show ?thesis by (simp add: list_all_iff)
qed

lemma ex_month_0: "re_search True (patterns ! 0) ''Due March 5, 2024'' = None"
  by code_simp

lemma ex_month_1: "re_search True (patterns ! 1) ''Due March 5, 2024'' = None"
  by code_simp

lemma ex_month_2: "re_search True (patterns ! 2) ''Due March 5, 2024'' = Some ''March 5, 2024''"
  by code_simp

theorem C6_date_priority_witness:
  "''Results on March 20, 2024. Exam on 15/03/2024 at 9am''
     = ''Results on March 20, 2024. Exam on '' @ ''15/03/2024'' @ '' at 9am''
   \<and> py_in ''March 20, 2024'' ''Results on March 20, 2024. Exam on 15/03/2024 at 9am''
   \<and> extract_date_from_text ''2026-11-03'' ''Results on March 20, 2024. Exam on 15/03/2024 at 9am''
       = ''15/03/2024''
   \<and> backend_extract_date_from_text ''2026-11-03''
         ''Results on March 20, 2024. Exam on 15/03/2024 at 9am'' = ''15/03/2024''
   \<and> extract_date_from_text ''2026-11-03'' ''No date here'' = ''2026-11-03''
   \<and> backend_extract_date_from_text ''2026-11-03'' ''No date here'' = ''2026-11-03''
   \<and> patterns ! 2 = pat_month_day_year
   \<and> re_search True (patterns ! 0) ''Due March 5, 2024'' = None
   \<and> re_search True (patterns ! 1) ''Due March 5, 2024'' = None
   \<and> re_search True (patterns ! 2) ''Due March 5, 2024'' = Some ''March 5, 2024''
   \<and> extract_date_from_text ''2026-11-03'' ''Due March 5, 2024'' = ''March 5, 2024''"
proof -
  let ?T = "''Results on March 20, 2024. Exam on 15/03/2024 at 9am''"
  have p: "py_in ''March 20, 2024'' ?T"
    by code_simp
  have sp: "?T = ''Results on March 20, 2024. Exam on '' @ ''15/03/2024'' @ '' at 9am''"
    by simp
  have h: "\<forall>k < length ''Results on March 20, 2024. Exam on ''. \<not> dmy_at (drop k ?T)"
    using ex_no_earlier_dmy by simp
  have 1: "extract_date_from_text ''2026-11-03'' ?T = ''15/03/2024''
         \<and> backend_extract_date_from_text ''2026-11-03'' ?T = ''15/03/2024''"
    using C6_date_priority [of ?T "''2026-11-03''"] sp h by blast
  have 2: "extract_date_from_text ''2026-11-03'' ''No date here'' = ''2026-11-03''
         \<and> backend_extract_date_from_text ''2026-11-03'' ''No date here'' = ''2026-11-03''"
    using C6_date_priority [of "''No date here''" "''2026-11-03''"] ex_no_date ex_no_date_backend
    by blast
  have n: "patterns ! 2 = pat_month_day_year \<and> (2 :: nat) < length patterns"
    by (simp add: patterns_def)
  have j: "\<forall>j < (2 :: nat). re_search True (patterns ! j) ''Due March 5, 2024'' = None"
  proof (intro allI impI)
    fix j :: nat
    assume "j < 2"
    then have "j = 0 \<or> j = 1" by auto
    then show "re_search True (patterns ! j) ''Due March 5, 2024'' = None"
    proof
      assume "j = 0"
      then show ?thesis by (simp only: ex_month_0)
    next
      assume "j = 1"
      then show ?thesis by (simp only: ex_month_1)
    qed
  qed
  have "(2 :: nat) < length patterns
          \<and> (\<forall>j < (2 :: nat). re_search True (patterns ! j) ''Due March 5, 2024'' = None)
          \<and> re_search True (patterns ! 2) ''Due March 5, 2024'' = Some ''March 5, 2024''
        \<longrightarrow> extract_date_from_text ''2026-11-03'' ''Due March 5, 2024'' = ''March 5, 2024''"
    using C6_date_priority [of "''Due March 5, 2024''" "''2026-11-03''"] by blast
  then have 3: "extract_date_from_text ''2026-11-03'' ''Due March 5, 2024'' = ''March 5, 2024''"
    using n j ex_month_2 by blast
  show ?thesis
    using p 1 2 3 n ex_month_0 ex_month_1 ex_month_2 by (simp del: re_search.simps)
qed

end
